theory Spec2Isabelle
  imports Main "HOL-Library.Word" "HOL-Library.AList"
begin

unbundle bit_operations_syntax

section \<open>Constants and basic types of the WAL (segment.go, options.go)\<close>

type_synonym byte = "8 word"
type_synonym uint16 = "16 word"
type_synonym uint32 = "32 word"
type_synonym uint64 = "64 word"

text \<open>Go's \<^verbatim>\<open>int64\<close> fields that are serialised (\<^verbatim>\<open>ChunkOffset\<close>, \<^verbatim>\<open>ValueNum\<close>) are kept as
  64-bit words and read with \<^const>\<open>sint\<close>; the conversion \<^verbatim>\<open>uint64(x)\<close> is then the identity
  on the bit pattern.\<close>

type_synonym ChunkType = byte
type_synonym SegmentID = uint32

definition ChunkTypeFull :: ChunkType where "ChunkTypeFull = 0"
definition ChunkTypeFirst :: ChunkType where "ChunkTypeFirst = 1"
definition ChunkTypeMiddle :: ChunkType where "ChunkTypeMiddle = 2"
definition ChunkTypeLast :: ChunkType where "ChunkTypeLast = 3"

definition chunkHeaderSize :: nat where "chunkHeaderSize = 7"
definition blockSize :: nat where "blockSize = 32768"
definition nonceSize :: nat where "nonceSize = 12"

definition MaxVarintLen32 :: nat where "MaxVarintLen32 = 5"
definition MaxVarintLen64 :: nat where "MaxVarintLen64 = 10"

text \<open>\<^verbatim>\<open>maxLen = binary.MaxVarintLen32*3 + binary.MaxVarintLen64\<close>\<close>

definition maxLen :: nat where
  "maxLen = MaxVarintLen32 * 3 + MaxVarintLen64"

datatype error =
    ErrClosed
  | ErrInvalidCRC
  | ErrValueTooLarge
  | ErrPendingSizeTooLarge
  | EOF
  | ErrIO
  | ErrSegmentNotFound
  | ErrNonceIncomplete
  | ErrWrongChunkSize
  | ErrBlockSizeExceeded
  | ErrStartPosNil
  | Panic

record ChunkPosition =
  SegmentId :: SegmentID
  BlockNumber :: uint32
  ChunkOffset :: uint64
  ChunkSize :: uint32
  ValueNum :: uint64

section \<open>Unsigned varints (encoding/binary)\<close>

text \<open>\<^verbatim>\<open>binary.PutUvarint(buf, x)\<close>: writes seven bits per byte, least significant group
  first, with the top bit as continuation flag; an index past the end of \<^verbatim>\<open>buf\<close> panics.\<close>

function putUvarintLoop :: "byte list \<Rightarrow> nat \<Rightarrow> uint64 \<Rightarrow> error + (byte list \<times> nat)" where
  "putUvarintLoop buf i x =
     (if x \<ge> 0x80 then
        (if i < length buf
         then putUvarintLoop (buf[i := (ucast x) OR 0x80]) (i + 1) (drop_bit 7 x)
         else Inl Panic)
      else if i < length buf then Inr (buf[i := ucast x], i + 1)
      else Inl Panic)"
  by pat_completeness auto
termination
proof (relation "measure (\<lambda>(buf, i, x). unat x)")
  show "wf (measure (\<lambda>(buf, i, x). unat x))" by simp
next
  fix buf :: "byte list" and i :: nat and x :: uint64
  assume "0x80 \<le> x"
  then have "128 \<le> unat x" by (simp add: word_le_nat_alt)
  then have "unat x div 128 < unat x" by simp
  then show "((buf[i := ucast x OR 0x80], i + 1, drop_bit 7 x), (buf, i, x))
      \<in> measure (\<lambda>(buf, i, x). unat x)"
    by (simp add: drop_bit_eq_div unat_div)
qed

definition PutUvarint :: "byte list \<Rightarrow> uint64 \<Rightarrow> error + (byte list \<times> nat)" where
  "PutUvarint buf x = putUvarintLoop buf 0 x"

text \<open>\<^verbatim>\<open>index += binary.PutUvarint(buf[index:], v)\<close>: the varint is written into the tail of
  the buffer that starts at \<^verbatim>\<open>index\<close>.\<close>

definition putField :: "byte list \<times> nat \<Rightarrow> uint64 \<Rightarrow> error + (byte list \<times> nat)" where
  "putField st v =
     (case st of (buf, index) \<Rightarrow>
        if index > length buf then Inl Panic
        else (case PutUvarint (drop index buf) v of
                Inl e \<Rightarrow> Inl e
              | Inr (tl', n) \<Rightarrow> Inr (take index buf @ tl', index + n)))"

definition bindE :: "error + 'a \<Rightarrow> ('a \<Rightarrow> error + 'b) \<Rightarrow> error + 'b" where
  "bindE m f = (case m of Inl e \<Rightarrow> Inl e | Inr a \<Rightarrow> f a)"

text \<open>\<^verbatim>\<open>ChunkPosition.encode(shrink)\<close>\<close>

definition encode :: "ChunkPosition \<Rightarrow> bool \<Rightarrow> error + byte list" where
  "encode cp shrink =
     bindE (putField (replicate maxLen 0, 0) (ucast (SegmentId cp))) (\<lambda>s1.
     bindE (putField s1 (ucast (BlockNumber cp))) (\<lambda>s2.
     bindE (putField s2 (ChunkOffset cp)) (\<lambda>s3.
     bindE (putField s3 (ucast (ChunkSize cp))) (\<lambda>s4.
     bindE (putField s4 (ValueNum cp)) (\<lambda>(buf, index).
       if shrink then Inr (take index buf) else Inr buf)))))"

definition Encode :: "ChunkPosition \<Rightarrow> error + byte list" where
  "Encode cp = encode cp True"

definition EncodeFixedSize :: "ChunkPosition \<Rightarrow> error + byte list" where
  "EncodeFixedSize cp = encode cp False"

section \<open>CRC-32, IEEE polynomial (hash/crc32)\<close>

text \<open>The table-driven algorithm of the Go library: the table entry of a byte is eight
  shift-and-conditionally-xor steps with the reflected polynomial \<^verbatim>\<open>0xedb88320\<close>;
  \<^verbatim>\<open>Update\<close> complements the running value, folds the bytes through the table and
  complements again; \<^verbatim>\<open>ChecksumIEEE(p) = Update(0, IEEETable, p)\<close>.\<close>

definition crcBit :: "uint32 \<Rightarrow> uint32" where
  "crcBit c = (if c AND 1 = 1 then drop_bit 1 c XOR 0xedb88320 else drop_bit 1 c)"

definition IEEETable :: "byte \<Rightarrow> uint32" where
  "IEEETable i = (crcBit ^^ 8) (ucast i)"

definition crcByte :: "uint32 \<Rightarrow> byte \<Rightarrow> uint32" where
  "crcByte c v = IEEETable (ucast c XOR v) XOR drop_bit 8 c"

definition crcUpdate :: "uint32 \<Rightarrow> byte list \<Rightarrow> uint32" where
  "crcUpdate crc p = NOT (foldl crcByte (NOT crc) p)"

definition ChecksumIEEE :: "byte list \<Rightarrow> uint32" where
  "ChecksumIEEE p = crcUpdate 0 p"

section \<open>Little-endian fields and slices\<close>

definition PutUint16 :: "uint16 \<Rightarrow> byte list" where
  "PutUint16 v = [ucast v, ucast (drop_bit 8 v)]"

definition PutUint32 :: "uint32 \<Rightarrow> byte list" where
  "PutUint32 v = [ucast v, ucast (drop_bit 8 v), ucast (drop_bit 16 v), ucast (drop_bit 24 v)]"

definition Uint16 :: "byte list \<Rightarrow> uint16" where
  "Uint16 b = ucast (b ! 0) OR push_bit 8 (ucast (b ! 1))"

definition Uint32 :: "byte list \<Rightarrow> uint32" where
  "Uint32 b = ucast (b ! 0) OR push_bit 8 (ucast (b ! 1))
              OR push_bit 16 (ucast (b ! 2)) OR push_bit 24 (ucast (b ! 3))"

text \<open>The slice expression \<^verbatim>\<open>b[lo:hi]\<close> on a buffer whose capacity is its length: it panics
  unless \<^verbatim>\<open>0 \<le> lo \<le> hi \<le> len(b)\<close>.\<close>

definition slice :: "'a list \<Rightarrow> int \<Rightarrow> int \<Rightarrow> error + 'a list" where
  "slice b lo hi =
     (if 0 \<le> lo \<and> lo \<le> hi \<and> hi \<le> int (length b)
      then Inr (take (nat (hi - lo)) (drop (nat lo) b))
      else Inl Panic)"

section \<open>Files (os.File opened with O\_CREATE | O\_RDWR | O\_APPEND)\<close>

text \<open>A file is its bytes, the length of the prefix that the last successful \<^verbatim>\<open>Sync\<close>
  made durable, the number of bytes the medium can hold (a write that does not fit stores
  what fits and returns an error), and whether \<^verbatim>\<open>Sync\<close> fails.\<close>

record File =
  contents :: "byte list"
  synced :: nat
  capacity :: nat
  syncFails :: bool

definition newFile :: "nat \<Rightarrow> File" where
  "newFile cap = \<lparr>contents = [], synced = 0, capacity = cap, syncFails = False\<rparr>"

definition fileWrite :: "File \<Rightarrow> byte list \<Rightarrow> error option \<times> File" where
  "fileWrite f b =
     (if length (contents f) + length b \<le> capacity f
      then (None, f\<lparr>contents := contents f @ b\<rparr>)
      else (Some ErrIO,
            f\<lparr>contents := contents f @ take (capacity f - length (contents f)) b\<rparr>))"

definition fileSync :: "File \<Rightarrow> error option \<times> File" where
  "fileSync f =
     (if syncFails f then (Some ErrIO, f)
      else (None, f\<lparr>synced := length (contents f)\<rparr>))"

text \<open>\<^verbatim>\<open>fd.ReadAt(b[0:size], off)\<close>: copies the bytes available at \<^verbatim>\<open>off\<close> into the front of
  the buffer; fewer than \<^verbatim>\<open>size\<close> bytes is \<^verbatim>\<open>io.EOF\<close>, a negative offset an error. The
  result is the number of bytes read, the error, and the buffer.\<close>

definition fileReadAt :: "File \<Rightarrow> byte list \<Rightarrow> int \<Rightarrow> int \<Rightarrow> nat \<times> error option \<times> byte list" where
  "fileReadAt f b sz off =
     (if sz < 0 \<or> sz > int (length b) then (0, Some Panic, b)
      else if off < 0 then (0, Some ErrIO, b)
      else let got = take (nat sz) (drop (nat off) (contents f));
               n = length got
           in (n, if n < nat sz then Some EOF else None, got @ drop n b))"

section \<open>Chunk framing (segment.go)\<close>

record startupBlock =
  block :: "byte list"
  blockNumber_sb :: int

text \<open>The segment struct. Its file is the entry of the data directory under the segment's
  id; the seven-byte \<^verbatim>\<open>header\<close> scratch buffer is rebuilt by every \<^verbatim>\<open>appendChunkBuffer\<close>
  and is local to that function here.\<close>

record segment =
  id_seg :: SegmentID
  currentBlockNumber :: uint32
  currentBlockSize :: uint32
  closed :: bool
  startupBlock :: startupBlock
  isStartupTraversal :: bool

definition Size :: "segment \<Rightarrow> int" where
  "Size seg = uint (currentBlockNumber seg) * int blockSize + uint (currentBlockSize seg)"

definition chunkHeader :: "byte list \<Rightarrow> ChunkType \<Rightarrow> byte list" where
  "chunkHeader data chunkType =
     (let lenType = PutUint16 (of_nat (length data)) @ [chunkType];
          sum = crcUpdate (ChecksumIEEE lenType) data
      in PutUint32 sum @ lenType)"

definition appendChunkBuffer :: "byte list \<Rightarrow> byte list \<Rightarrow> ChunkType \<Rightarrow> byte list" where
  "appendChunkBuffer buf data chunkType = buf @ chunkHeader data chunkType @ data"

text \<open>The loop of \<^verbatim>\<open>writeToBuffer\<close> that splits a record over several blocks. All of
  \<^verbatim>\<open>dataSize\<close>, \<^verbatim>\<open>leftSize\<close>, \<^verbatim>\<open>blockCount\<close>, \<^verbatim>\<open>currBlockSize\<close> and \<^verbatim>\<open>chunkSize\<close> are
  \<^verbatim>\<open>uint32\<close>. The slice \<^verbatim>\<open>data[dataSize-leftSize:end]\<close> is always within \<^verbatim>\<open>data\<close>.\<close>

definition nextChunkSize :: "uint32 \<Rightarrow> uint32 \<Rightarrow> uint32" where
  "nextChunkSize currBlockSize leftSize =
     (let chunkSize = of_nat blockSize - currBlockSize - of_nat chunkHeaderSize
      in if chunkSize > leftSize then leftSize else chunkSize)"

definition chunkEnd :: "uint32 \<Rightarrow> uint32 \<Rightarrow> uint32 \<Rightarrow> uint32" where
  "chunkEnd dataSize leftSize chunkSize =
     (let e = dataSize - leftSize + chunkSize in if e > dataSize then dataSize else e)"

definition chunkTypeOf :: "uint32 \<Rightarrow> uint32 \<Rightarrow> uint32 \<Rightarrow> ChunkType" where
  "chunkTypeOf dataSize leftSize chunkSize =
     (if leftSize = dataSize then ChunkTypeFirst
      else if leftSize = chunkSize then ChunkTypeLast
      else ChunkTypeMiddle)"

definition dataSlice :: "byte list \<Rightarrow> uint32 \<Rightarrow> uint32 \<Rightarrow> byte list" where
  "dataSlice data lo hi = take (unat hi - unat lo) (drop (unat lo) data)"

function writeChunks ::
  "byte list \<Rightarrow> uint32 \<Rightarrow> uint32 \<Rightarrow> uint32 \<Rightarrow> uint32 \<Rightarrow> byte list \<Rightarrow> byte list \<times> uint32" where
  "writeChunks data dataSize leftSize blockCount currBlockSize buf =
     (if leftSize > 0 then
        writeChunks data dataSize
          (leftSize - nextChunkSize currBlockSize leftSize)
          (blockCount + 1)
          ((currBlockSize + nextChunkSize currBlockSize leftSize + of_nat chunkHeaderSize)
             mod of_nat blockSize)
          (appendChunkBuffer buf
             (dataSlice data (dataSize - leftSize)
                (chunkEnd dataSize leftSize (nextChunkSize currBlockSize leftSize)))
             (chunkTypeOf dataSize leftSize (nextChunkSize currBlockSize leftSize)))
      else (buf, blockCount))"
  by pat_completeness auto
termination
proof (relation "measure (\<lambda>(data, dataSize, leftSize, blockCount, currBlockSize, buf).
          2 * unat leftSize + (if currBlockSize = 32761 then 1 else 0))")
  show "wf (measure (\<lambda>(data, dataSize, leftSize, blockCount, currBlockSize, buf).
          2 * unat leftSize + (if currBlockSize = (32761::uint32) then 1 else 0)))"
    by simp
next
  fix data :: "byte list" and dataSize leftSize blockCount currBlockSize :: uint32
    and buf :: "byte list"
  assume pos: "0 < leftSize"
  define c where "c = nextChunkSize currBlockSize leftSize"
  have cle: "c \<le> leftSize"
    by (auto simp add: c_def nextChunkSize_def Let_def)
  have sub: "unat (leftSize - c) = unat leftSize - unat c"
    using cle by (simp add: unat_sub)
  show "((data, dataSize, leftSize - nextChunkSize currBlockSize leftSize, blockCount + 1,
          (currBlockSize + nextChunkSize currBlockSize leftSize + of_nat chunkHeaderSize)
             mod of_nat blockSize,
          appendChunkBuffer buf
             (dataSlice data (dataSize - leftSize)
                (chunkEnd dataSize leftSize (nextChunkSize currBlockSize leftSize)))
             (chunkTypeOf dataSize leftSize (nextChunkSize currBlockSize leftSize))),
         (data, dataSize, leftSize, blockCount, currBlockSize, buf))
        \<in> measure (\<lambda>(data, dataSize, leftSize, blockCount, currBlockSize, buf).
          2 * unat leftSize + (if currBlockSize = 32761 then 1 else 0))"
  proof (cases "c = 0")
    case True
    have "of_nat blockSize - currBlockSize - of_nat chunkHeaderSize = (0::uint32)"
    proof (rule ccontr)
      assume ne: "of_nat blockSize - currBlockSize - of_nat chunkHeaderSize \<noteq> (0::uint32)"
      have "leftSize \<noteq> 0" using pos by auto
      with ne have "c \<noteq> 0"
        by (simp add: c_def nextChunkSize_def Let_def)
      with True show False by simp
    qed
    then have cur: "currBlockSize = 32761"
      by (simp add: blockSize_def chunkHeaderSize_def algebra_simps)
    have nxt: "(currBlockSize + c + of_nat chunkHeaderSize) mod of_nat blockSize = (0::uint32)"
      by (simp add: cur True blockSize_def chunkHeaderSize_def)
    have "(currBlockSize + c + of_nat chunkHeaderSize) mod of_nat blockSize \<noteq> (32761::uint32)"
      by (simp add: nxt)
    moreover have "leftSize - c = leftSize"
      by (simp add: True)
    ultimately show ?thesis
      unfolding c_def [symmetric] by (simp add: cur)
  next
    case False
    then have "0 < unat c" by (simp add: unat_gt_0)
    moreover have "unat c \<le> unat leftSize"
      using cle by (simp add: word_le_nat_alt)
    ultimately have "2 * unat (leftSize - c) + 1 < 2 * unat leftSize"
      using sub by arith
    then show ?thesis
      unfolding c_def [symmetric] by (simp split: if_splits)
  qed
qed

declare writeChunks.simps [simp del]

text \<open>\<^verbatim>\<open>segment.writeToBuffer\<close>: returns the error or the position, the segment with its
  updated counters, and the chunk buffer. All sizes are \<^verbatim>\<open>uint32\<close> as in the source.\<close>

definition padBlock :: "segment \<Rightarrow> byte list \<Rightarrow> uint32 \<times> segment \<times> byte list" where
  "padBlock seg chunkBuffer =
     (if currentBlockSize seg + of_nat chunkHeaderSize \<ge> of_nat blockSize then
        (if currentBlockSize seg < of_nat blockSize then
           (of_nat blockSize - currentBlockSize seg,
            seg\<lparr>currentBlockNumber := currentBlockNumber seg + 1, currentBlockSize := 0\<rparr>,
            chunkBuffer @ replicate (unat (of_nat blockSize - currentBlockSize seg :: uint32)) 0)
         else (0, seg, chunkBuffer))
      else (0, seg, chunkBuffer))"

definition advanceBlock :: "segment \<Rightarrow> uint32 \<Rightarrow> segment" where
  "advanceBlock seg chunkSize =
     (let cbs = currentBlockSize seg + chunkSize
      in if cbs \<ge> of_nat blockSize
         then seg\<lparr>currentBlockNumber := currentBlockNumber seg + cbs div of_nat blockSize,
                  currentBlockSize := cbs mod of_nat blockSize\<rparr>
         else seg\<lparr>currentBlockSize := cbs\<rparr>)"

text \<open>The chunks of one record appended to the buffer, with the record's \<^verbatim>\<open>ChunkSize\<close>:
  one full chunk when the record fits into the block, the loop otherwise.\<close>

definition emitRecord :: "uint32 \<Rightarrow> byte list \<Rightarrow> byte list \<Rightarrow> byte list \<times> uint32" where
  "emitRecord currBlockSize data buf =
     (let dataSize = (of_nat (length data) :: uint32)
      in if currBlockSize + dataSize + of_nat chunkHeaderSize \<le> of_nat blockSize
         then (appendChunkBuffer buf data ChunkTypeFull, dataSize + of_nat chunkHeaderSize)
         else (case writeChunks data dataSize dataSize 0 currBlockSize buf of
                 (buf', blockCount) \<Rightarrow>
                   (buf', blockCount * of_nat chunkHeaderSize + dataSize)))"

definition writeToBuffer ::
  "segment \<Rightarrow> byte list \<Rightarrow> byte list \<Rightarrow> (error + ChunkPosition) \<times> segment \<times> byte list" where
  "writeToBuffer seg data chunkBuffer =
     (if closed seg then (Inl ErrClosed, seg, chunkBuffer)
      else
        (case padBlock seg chunkBuffer of (padding, seg1, buf1) \<Rightarrow>
          (case emitRecord (currentBlockSize seg1) data buf1 of (buf2, chunkSize) \<Rightarrow>
             if chunkSize + padding \<noteq> of_nat (length buf2 - length chunkBuffer)
             then (Inl ErrWrongChunkSize, seg1, buf2)
             else (Inr \<lparr>SegmentId = id_seg seg1,
                        BlockNumber = currentBlockNumber seg1,
                        ChunkOffset = ucast (currentBlockSize seg1),
                        ChunkSize = chunkSize,
                        ValueNum = 0\<rparr>,
                   advanceBlock seg1 chunkSize, buf2))))"

text \<open>\<^verbatim>\<open>segment.writeChunkBuffer\<close>: a successful write invalidates the cached startup block.\<close>

definition writeChunkBuffer :: "segment \<Rightarrow> File \<Rightarrow> byte list \<Rightarrow> error option \<times> segment \<times> File" where
  "writeChunkBuffer seg f buf =
     (if currentBlockSize seg > of_nat blockSize then (Some ErrBlockSizeExceeded, seg, f)
      else (case fileWrite f buf of
              (Some e, f') \<Rightarrow> (Some e, seg, f')
            | (None, f') \<Rightarrow>
                (None, seg\<lparr>startupBlock := (startupBlock seg)\<lparr>blockNumber_sb := -1\<rparr>\<rparr>, f')))"

text \<open>The deferred function of \<^verbatim>\<open>Write\<close> and \<^verbatim>\<open>writeAll\<close>: on an error the block counters
  go back to their values before the call.\<close>

definition restoreCounters :: "segment \<Rightarrow> segment \<Rightarrow> segment" where
  "restoreCounters origin seg =
     seg\<lparr>currentBlockNumber := currentBlockNumber origin,
         currentBlockSize := currentBlockSize origin\<rparr>"

definition segment_Write ::
  "segment \<Rightarrow> File \<Rightarrow> byte list \<Rightarrow> (error + ChunkPosition) \<times> segment \<times> File" where
  "segment_Write seg f data =
     (if closed seg then (Inl ErrClosed, seg, f)
      else (case writeToBuffer seg data [] of
              (Inl e, seg1, buf) \<Rightarrow> (Inl e, restoreCounters seg seg1, f)
            | (Inr pos, seg1, buf) \<Rightarrow>
                (case writeChunkBuffer seg1 f buf of
                   (Some e, seg2, f') \<Rightarrow> (Inl e, restoreCounters seg seg2, f')
                 | (None, seg2, f') \<Rightarrow> (Inr pos, seg2, f'))))"

fun writeAllToBuffer ::
  "segment \<Rightarrow> byte list list \<Rightarrow> byte list \<Rightarrow> (error + ChunkPosition list) \<times> segment \<times> byte list" where
  "writeAllToBuffer seg [] chunkBuffer = (Inr [], seg, chunkBuffer)"
| "writeAllToBuffer seg (d # ds) chunkBuffer =
     (case writeToBuffer seg d chunkBuffer of
        (Inl e, seg1, buf1) \<Rightarrow> (Inl e, seg1, buf1)
      | (Inr pos, seg1, buf1) \<Rightarrow>
          (case writeAllToBuffer seg1 ds buf1 of
             (Inl e, seg2, buf2) \<Rightarrow> (Inl e, seg2, buf2)
           | (Inr ps, seg2, buf2) \<Rightarrow> (Inr (pos # ps), seg2, buf2)))"

definition segment_writeAll ::
  "segment \<Rightarrow> File \<Rightarrow> byte list list \<Rightarrow> (error + ChunkPosition list) \<times> segment \<times> File" where
  "segment_writeAll seg f data =
     (if closed seg then (Inl ErrClosed, seg, f)
      else (case writeAllToBuffer seg data [] of
              (Inl e, seg1, buf) \<Rightarrow> (Inl e, restoreCounters seg seg1, f)
            | (Inr positions, seg1, buf) \<Rightarrow>
                (case writeChunkBuffer seg1 f buf of
                   (Some e, seg2, f') \<Rightarrow> (Inl e, restoreCounters seg seg2, f')
                 | (None, seg2, f') \<Rightarrow> (Inr positions, seg2, f'))))"

section \<open>Reading chunks (segment.readInternal)\<close>

text \<open>One chunk of the block buffer at \<^verbatim>\<open>chunkOffset\<close>: the header, the length, the
  payload, the checksum over \<^verbatim>\<open>block[chunkOffset+4 : checksumEnd]\<close> against the saved
  one, and the type. The result is the payload, the chunk type and \<^verbatim>\<open>checksumEnd\<close>.\<close>

definition parseChunk :: "byte list \<Rightarrow> int \<Rightarrow> error + (byte list \<times> ChunkType \<times> int)" where
  "parseChunk blk chunkOffset =
     bindE (slice blk chunkOffset (chunkOffset + int chunkHeaderSize)) (\<lambda>header.
       let len = Uint16 (take 2 (drop 4 header));
           start = chunkOffset + int chunkHeaderSize;
           checksumEnd = chunkOffset + int chunkHeaderSize + uint len
       in bindE (slice blk start (start + uint len)) (\<lambda>payload.
          bindE (slice blk (chunkOffset + 4) checksumEnd) (\<lambda>covered.
            if Uint32 (take 4 header) \<noteq> ChecksumIEEE covered then Inl ErrInvalidCRC
            else Inr (payload, header ! 6, checksumEnd))))"

text \<open>The block of the iteration: in startup traversal the cached block is reused when it
  is the block asked for and the block is full on disk; otherwise the block is read from
  the file. The result is the error, the buffer and the cached block number.\<close>

definition loadBlock ::
  "bool \<Rightarrow> File \<Rightarrow> byte list \<Rightarrow> int \<Rightarrow> uint32 \<Rightarrow> int \<Rightarrow> int \<Rightarrow> error option \<times> byte list \<times> int" where
  "loadBlock startup f blk cached blockNumber sz off =
     (if startup then
        (if cached \<noteq> uint blockNumber \<or> sz \<noteq> int blockSize then
           (case fileReadAt f blk sz off of
              (n, Some e, blk') \<Rightarrow> (Some e, blk', cached)
            | (n, None, blk') \<Rightarrow> (None, blk', uint blockNumber))
         else (None, blk, cached))
      else
        (case fileReadAt f blk sz off of
           (n, Some e, blk') \<Rightarrow> (Some e, blk', cached)
         | (n, None, blk') \<Rightarrow> (None, blk', cached)))"

definition blockReadSize :: "int \<Rightarrow> uint32 \<Rightarrow> int" where
  "blockReadSize segSize blockNumber =
     (let off = uint blockNumber * int blockSize
      in if int blockSize + off > segSize then segSize - off else int blockSize)"

definition nextChunkAfter :: "uint32 \<Rightarrow> int \<Rightarrow> uint32 \<times> int" where
  "nextChunkAfter blockNumber checksumEnd =
     (if checksumEnd + int chunkHeaderSize \<ge> int blockSize
      then (blockNumber + 1, 0) else (blockNumber, checksumEnd))"

text \<open>The \<^verbatim>\<open>for\<close> loop of \<^verbatim>\<open>readInternal\<close>. It has no bound of its own (the block number is a
  \<^verbatim>\<open>uint32\<close> that wraps), so it is a partial function: \<open>None\<close> is a loop that never
  returns. The result is the error or the record with the block number and offset of the
  next chunk, then the block buffer and the cached block number.\<close>

partial_function (option) readChunks ::
  "bool \<Rightarrow> int \<Rightarrow> File \<Rightarrow> byte list \<Rightarrow> int \<Rightarrow> uint32 \<Rightarrow> int \<Rightarrow> byte list
     \<Rightarrow> ((error + byte list \<times> uint32 \<times> int) \<times> byte list \<times> int) option" where
  "readChunks startup segSize f blk cached blockNumber chunkOffset result =
     (if chunkOffset \<ge> blockReadSize segSize blockNumber then Some (Inl EOF, blk, cached)
      else
        (case loadBlock startup f blk cached blockNumber
                (blockReadSize segSize blockNumber) (uint blockNumber * int blockSize) of
           (Some e, blk1, cached1) \<Rightarrow> Some (Inl e, blk1, cached1)
         | (None, blk1, cached1) \<Rightarrow>
             (case parseChunk blk1 chunkOffset of
                Inl e \<Rightarrow> Some (Inl e, blk1, cached1)
              | Inr (payload, chunkType, checksumEnd) \<Rightarrow>
                  if chunkType = ChunkTypeFull \<or> chunkType = ChunkTypeLast
                  then Some (Inr (result @ payload, nextChunkAfter blockNumber checksumEnd),
                             blk1, cached1)
                  else readChunks startup segSize f blk1 cached1 (blockNumber + 1) 0
                         (result @ payload))))"

declare readChunks.simps [code]

text \<open>\<^verbatim>\<open>segment.readInternal\<close>. \<open>pool\<close> is the buffer that \<^verbatim>\<open>getBuffer()\<close> hands out: any
  earlier contents, replaced by a fresh buffer when its length is not the block size.\<close>

definition readInternal ::
  "segment \<Rightarrow> File \<Rightarrow> byte list \<Rightarrow> uint32 \<Rightarrow> int
     \<Rightarrow> ((error + byte list \<times> ChunkPosition) \<times> segment) option" where
  "readInternal seg f pool blockNumber chunkOffset =
     (if closed seg then Some (Inl ErrClosed, seg)
      else
        (case readChunks (isStartupTraversal seg) (Size seg) f
                (if isStartupTraversal seg then block (startupBlock seg)
                 else if length pool \<noteq> blockSize then replicate blockSize 0 else pool)
                (blockNumber_sb (startupBlock seg)) blockNumber chunkOffset [] of
           None \<Rightarrow> None
         | Some (r, blk', cached') \<Rightarrow>
             Some (case r of
                     Inl e \<Rightarrow> Inl e
                   | Inr (result, nb, no) \<Rightarrow>
                       Inr (result, \<lparr>SegmentId = id_seg seg, BlockNumber = nb,
                                     ChunkOffset = word_of_int no, ChunkSize = 0,
                                     ValueNum = 0\<rparr>),
                   if isStartupTraversal seg
                   then seg\<lparr>startupBlock := \<lparr>block = blk', blockNumber_sb = cached'\<rparr>\<rparr>
                   else seg)))"

definition segment_Read ::
  "segment \<Rightarrow> File \<Rightarrow> byte list \<Rightarrow> uint32 \<Rightarrow> int \<Rightarrow> ((error + byte list) \<times> segment) option" where
  "segment_Read seg f pool blockNumber chunkOffset =
     (case readInternal seg f pool blockNumber chunkOffset of
        None \<Rightarrow> None
      | Some (Inl e, seg') \<Rightarrow> Some (Inl e, seg')
      | Some (Inr (v, nextChunk), seg') \<Rightarrow> Some (Inr v, seg'))"

text \<open>The segment iterator. It refers to its segment by id.\<close>

record segmentReader =
  segment_sr :: SegmentID
  blockNumber_sr :: uint32
  chunkOffset_sr :: int

definition segment_NewReader :: "segment \<Rightarrow> segmentReader" where
  "segment_NewReader seg = \<lparr>segment_sr = id_seg seg, blockNumber_sr = 0, chunkOffset_sr = 0\<rparr>"

definition segmentReader_Next ::
  "segmentReader \<Rightarrow> segment \<Rightarrow> File \<Rightarrow> byte list
     \<Rightarrow> ((error + byte list \<times> ChunkPosition) \<times> segmentReader \<times> segment) option" where
  "segmentReader_Next segReader seg f pool =
     (if closed seg then Some (Inl ErrClosed, segReader, seg)
      else
        (case readInternal seg f pool (blockNumber_sr segReader) (chunkOffset_sr segReader) of
           None \<Rightarrow> None
         | Some (Inl e, seg') \<Rightarrow> Some (Inl e, segReader, seg')
         | Some (Inr (v, nextChunk), seg') \<Rightarrow>
             Some (Inr (v, \<lparr>SegmentId = id_seg seg,
                            BlockNumber = blockNumber_sr segReader,
                            ChunkOffset = word_of_int (chunkOffset_sr segReader),
                            ChunkSize =
                              BlockNumber nextChunk * of_nat blockSize
                                + ucast (ChunkOffset nextChunk)
                              - (blockNumber_sr segReader * of_nat blockSize
                                 + word_of_int (chunkOffset_sr segReader)),
                            ValueNum = 0\<rparr>),
                   segReader\<lparr>blockNumber_sr := BlockNumber nextChunk,
                             chunkOffset_sr := sint (ChunkOffset nextChunk)\<rparr>,
                   seg')))"

section \<open>The nonce file\<close>

record nonceFile =
  fd_nf :: File
  curNum :: int
  closed_nf :: bool

text \<open>\<^verbatim>\<open>openNonceFile\<close>, given the file found (or created) under the nonce file's name.\<close>

definition openNonceFile :: "File \<Rightarrow> nonceFile" where
  "openNonceFile f =
     \<lparr>fd_nf = f, curNum = int (length (contents f)) div int nonceSize, closed_nf = False\<rparr>"

definition nonceFile_Write ::
  "nonceFile \<Rightarrow> byte list \<Rightarrow> ChunkPosition \<Rightarrow> error option \<times> ChunkPosition \<times> nonceFile" where
  "nonceFile_Write nf nonce position =
     (if length nonce = 0 then (None, position, nf)
      else (case fileWrite (fd_nf nf) nonce of
              (Some e, f') \<Rightarrow> (Some e, position, nf\<lparr>fd_nf := f'\<rparr>)
            | (None, f') \<Rightarrow>
                (None, position\<lparr>ValueNum := word_of_int (curNum nf)\<rparr>,
                 nf\<lparr>fd_nf := f', curNum := curNum nf + 1\<rparr>)))"

text \<open>\<^verbatim>\<open>nonceFile.writeAll\<close>: the loop runs over the nonces and indexes the positions; a
  missing position is an index out of range.\<close>

fun nonceFile_writeAll ::
  "nonceFile \<Rightarrow> byte list list \<Rightarrow> ChunkPosition list
     \<Rightarrow> error option \<times> ChunkPosition list \<times> nonceFile" where
  "nonceFile_writeAll nf [] positions = (None, positions, nf)"
| "nonceFile_writeAll nf (n # ns) positions =
     (case fileWrite (fd_nf nf) n of
        (Some e, f') \<Rightarrow> (Some e, positions, nf\<lparr>fd_nf := f'\<rparr>)
      | (None, f') \<Rightarrow>
          (case positions of
             [] \<Rightarrow> (Some Panic, [], nf\<lparr>fd_nf := f'\<rparr>)
           | p # ps \<Rightarrow>
               (case nonceFile_writeAll (nf\<lparr>fd_nf := f', curNum := curNum nf + 1\<rparr>) ns ps of
                  (e, ps', nf') \<Rightarrow> (e, p\<lparr>ValueNum := word_of_int (curNum nf)\<rparr> # ps', nf'))))"

definition nonceFile_Sync :: "nonceFile \<Rightarrow> error option \<times> nonceFile" where
  "nonceFile_Sync nf =
     (if closed_nf nf then (None, nf)
      else (case fileSync (fd_nf nf) of (e, f') \<Rightarrow> (e, nf\<lparr>fd_nf := f'\<rparr>)))"

definition segment_Sync :: "segment \<Rightarrow> File \<Rightarrow> error option \<times> File" where
  "segment_Sync seg f = (if closed seg then (None, f) else fileSync f)"

section \<open>The WAL (wal.go)\<close>

record Options =
  SegmentSize :: int
  Sync :: bool
  BytesPerSync :: uint32

text \<open>The data directory: the segment files by id, whether creating a file in it fails,
  and the capacity a newly created file gets.\<close>

record Dir =
  files :: "SegmentID \<rightharpoonup> File"
  readOnly :: bool
  quota :: nat

text \<open>The WAL struct, with the data directory it works on. A segment's \<^verbatim>\<open>fd\<close> is the
  directory entry under the segment's id; the older segments are kept as an association
  list with distinct keys. The locks are left out: the model is sequential.\<close>

record WAL =
  activeSegment :: segment
  olderSegments :: "(SegmentID \<times> segment) list"
  options :: Options
  bytesWrite :: uint32
  pendingWrites :: "byte list list"
  pendingNonceWrites :: "byte list list"
  pendingSize :: int
  nonceFile :: nonceFile
  dir :: Dir

text \<open>\<^verbatim>\<open>openSegmentFile\<close>: opens the file of that id, creating it when it is missing, and
  takes the block counters from its length.\<close>

definition openSegmentFile :: "Dir \<Rightarrow> SegmentID \<Rightarrow> (error + segment) \<times> Dir" where
  "openSegmentFile d i =
     (case (case files d i of
              Some f \<Rightarrow> Inr (f, d)
            | None \<Rightarrow> if readOnly d then Inl ErrIO
                      else Inr (newFile (quota d),
                                d\<lparr>files := (files d)(i \<mapsto> newFile (quota d))\<rparr>)) of
        Inl e \<Rightarrow> (Inl e, d)
      | Inr (f, d') \<Rightarrow>
          (Inr \<lparr>id_seg = i,
                currentBlockNumber = of_nat (length (contents f) div blockSize),
                currentBlockSize = of_nat (length (contents f) mod blockSize),
                closed = False,
                startupBlock = \<lparr>block = replicate blockSize 0, blockNumber_sb = -1\<rparr>,
                isStartupTraversal = False\<rparr>, d'))"

definition maxDataWriteSize :: "int \<Rightarrow> int" where
  "maxDataWriteSize sz =
     int chunkHeaderSize + sz + (sz div int blockSize + 1) * int chunkHeaderSize"

definition isFull :: "WAL \<Rightarrow> int \<Rightarrow> bool" where
  "isFull wal delta =
     (Size (activeSegment wal) + maxDataWriteSize delta > SegmentSize (options wal))"

definition putFile :: "WAL \<Rightarrow> SegmentID \<Rightarrow> File \<Rightarrow> WAL" where
  "putFile wal i f = wal\<lparr>dir := (dir wal)\<lparr>files := (files (dir wal))(i \<mapsto> f)\<rparr>\<rparr>"

text \<open>Syncing the active segment through the directory; an open segment always has its
  file, so a missing entry is reported as an I/O error.\<close>

definition syncActive :: "WAL \<Rightarrow> error option \<times> WAL" where
  "syncActive wal =
     (case files (dir wal) (id_seg (activeSegment wal)) of
        None \<Rightarrow> (Some ErrIO, wal)
      | Some f \<Rightarrow>
          (case segment_Sync (activeSegment wal) f of
             (e, f') \<Rightarrow> (e, putFile wal (id_seg (activeSegment wal)) f')))"

definition syncNonce :: "WAL \<Rightarrow> error option \<times> WAL" where
  "syncNonce wal =
     (case nonceFile_Sync (nonceFile wal) of (e, nf') \<Rightarrow> (e, wal\<lparr>nonceFile := nf'\<rparr>))"

definition rotateActiveSegment :: "WAL \<Rightarrow> error option \<times> WAL" where
  "rotateActiveSegment wal =
     (case syncActive wal of
        (Some e, wal1) \<Rightarrow> (Some e, wal1)
      | (None, wal1) \<Rightarrow>
          (case syncNonce wal1 of
             (Some e, wal2) \<Rightarrow> (Some e, wal2)
           | (None, wal2) \<Rightarrow>
               (case openSegmentFile (dir wal2) (id_seg (activeSegment wal2) + 1) of
                  (Inl e, d') \<Rightarrow> (Some e, wal2\<lparr>bytesWrite := 0, dir := d'\<rparr>)
                | (Inr seg, d') \<Rightarrow>
                    (None, wal2\<lparr>bytesWrite := 0, dir := d',
                                olderSegments :=
                                  AList.update (id_seg (activeSegment wal2)) (activeSegment wal2)
                                    (olderSegments wal2),
                                activeSegment := seg\<rparr>))))"

definition rotateIfFull :: "WAL \<Rightarrow> bool \<Rightarrow> error option \<times> WAL" where
  "rotateIfFull wal full = (if full then rotateActiveSegment wal else (None, wal))"

text \<open>The tail of \<^verbatim>\<open>WAL.Write\<close>: the byte counter and the sync policy.\<close>

definition syncIfNeeded :: "WAL \<Rightarrow> ChunkPosition \<Rightarrow> (error + ChunkPosition) \<times> WAL" where
  "syncIfNeeded wal position =
     (let wal1 = wal\<lparr>bytesWrite := bytesWrite wal + ChunkSize position\<rparr>;
          needSync = (if \<not> Sync (options wal1) \<and> BytesPerSync (options wal1) > 0
                      then bytesWrite wal1 \<ge> BytesPerSync (options wal1)
                      else Sync (options wal1))
      in if needSync then
           (case syncActive wal1 of
              (Some e, wal2) \<Rightarrow> (Inl e, wal2)
            | (None, wal2) \<Rightarrow>
                (case syncNonce wal2 of
                   (Some e, wal3) \<Rightarrow> (Inl e, wal3)
                 | (None, wal3) \<Rightarrow> (Inr position, wal3\<lparr>bytesWrite := 0\<rparr>)))
         else (Inr position, wal1))"

definition WAL_Write :: "WAL \<Rightarrow> byte list \<Rightarrow> byte list \<Rightarrow> (error + ChunkPosition) \<times> WAL" where
  "WAL_Write wal data nonce =
     (if int (length data) + int chunkHeaderSize > SegmentSize (options wal)
      then (Inl ErrValueTooLarge, wal)
      else
        (case rotateIfFull wal (isFull wal (int (length data))) of
           (Some e, wal1) \<Rightarrow> (Inl e, wal1)
         | (None, wal1) \<Rightarrow>
             (case files (dir wal1) (id_seg (activeSegment wal1)) of
                None \<Rightarrow> (Inl ErrIO, wal1)
              | Some f \<Rightarrow>
                  (case segment_Write (activeSegment wal1) f data of
                     (Inl e, seg', f') \<Rightarrow>
                       (Inl e, putFile (wal1\<lparr>activeSegment := seg'\<rparr>) (id_seg seg') f')
                   | (Inr position, seg', f') \<Rightarrow>
                       (case nonceFile_Write (nonceFile wal1) nonce position of
                          (Some e, position', nf') \<Rightarrow>
                            (Inl e, putFile (wal1\<lparr>activeSegment := seg', nonceFile := nf'\<rparr>)
                                      (id_seg seg') f')
                        | (None, position', nf') \<Rightarrow>
                            syncIfNeeded
                              (putFile (wal1\<lparr>activeSegment := seg', nonceFile := nf'\<rparr>)
                                 (id_seg seg') f')
                              position')))))"

definition ClearPendingWrites :: "WAL \<Rightarrow> WAL" where
  "ClearPendingWrites wal = wal\<lparr>pendingSize := 0, pendingWrites := [], pendingNonceWrites := []\<rparr>"

definition PendingWrites :: "WAL \<Rightarrow> byte list \<Rightarrow> byte list \<Rightarrow> WAL" where
  "PendingWrites wal data nonce =
     wal\<lparr>pendingSize := pendingSize wal + maxDataWriteSize (int (length data)),
         pendingWrites := pendingWrites wal @ [data],
         pendingNonceWrites := pendingNonceWrites wal @ [nonce]\<rparr>"

text \<open>\<^verbatim>\<open>WAL.WriteAll\<close>. The deferred \<^verbatim>\<open>ClearPendingWrites\<close> runs on every return after the
  first; the value returned by \<^verbatim>\<open>nonceFile.writeAll\<close> is not looked at.\<close>

definition WAL_WriteAll :: "WAL \<Rightarrow> (error + ChunkPosition list) \<times> WAL" where
  "WAL_WriteAll wal =
     (if length (pendingWrites wal) = 0 then (Inr [], wal)
      else if pendingSize wal > SegmentSize (options wal)
      then (Inl ErrPendingSizeTooLarge, ClearPendingWrites wal)
      else
        (case rotateIfFull wal
                (Size (activeSegment wal) + pendingSize wal > SegmentSize (options wal)) of
           (Some e, wal1) \<Rightarrow> (Inl e, ClearPendingWrites wal1)
         | (None, wal1) \<Rightarrow>
             (case files (dir wal1) (id_seg (activeSegment wal1)) of
                None \<Rightarrow> (Inl ErrIO, ClearPendingWrites wal1)
              | Some f \<Rightarrow>
                  (case segment_writeAll (activeSegment wal1) f (pendingWrites wal1) of
                     (Inl e, seg', f') \<Rightarrow>
                       (Inl e, ClearPendingWrites
                                 (putFile (wal1\<lparr>activeSegment := seg'\<rparr>) (id_seg seg') f'))
                   | (Inr positions, seg', f') \<Rightarrow>
                       (case nonceFile_writeAll (nonceFile wal1) (pendingNonceWrites wal1)
                               positions of
                          (e, positions', nf') \<Rightarrow>
                            (Inr positions',
                             ClearPendingWrites
                               (putFile (wal1\<lparr>activeSegment := seg', nonceFile := nf'\<rparr>)
                                  (id_seg seg') f')))))))"

text \<open>The segment a position or a reader refers to, and storing a segment back after a
  read has changed its cached block.\<close>

definition findSegment :: "WAL \<Rightarrow> SegmentID \<Rightarrow> segment option" where
  "findSegment wal i =
     (if i = id_seg (activeSegment wal) then Some (activeSegment wal)
      else map_of (olderSegments wal) i)"

definition putSegment :: "WAL \<Rightarrow> segment \<Rightarrow> WAL" where
  "putSegment wal seg =
     (if id_seg seg = id_seg (activeSegment wal) then wal\<lparr>activeSegment := seg\<rparr>
      else wal\<lparr>olderSegments := AList.update (id_seg seg) seg (olderSegments wal)\<rparr>)"

text \<open>\<^verbatim>\<open>fd.ReadAt(nonce, valueNum*nonceSize)\<close> into a fresh twelve-byte buffer; the product is
  an \<^verbatim>\<open>int64\<close>.\<close>

definition readNonce :: "nonceFile \<Rightarrow> uint64 \<Rightarrow> nat \<times> error option \<times> byte list" where
  "readNonce nf valueNum =
     fileReadAt (fd_nf nf) (replicate nonceSize 0) (int nonceSize)
       (sint (valueNum * of_nat nonceSize))"

definition WAL_Read ::
  "WAL \<Rightarrow> byte list \<Rightarrow> ChunkPosition \<Rightarrow> ((error + byte list \<times> byte list) \<times> WAL) option" where
  "WAL_Read wal pool pos =
     (case findSegment wal (SegmentId pos) of
        None \<Rightarrow> Some (Inl ErrSegmentNotFound, wal)
      | Some seg \<Rightarrow>
          (case readNonce (nonceFile wal) (ValueNum pos) of
             (n, Some e, nonce) \<Rightarrow> Some (Inl e, wal)
           | (n, None, nonce) \<Rightarrow>
               if n \<noteq> nonceSize then Some (Inl ErrNonceIncomplete, wal)
               else
                 (case files (dir wal) (id_seg seg) of
                    None \<Rightarrow> Some (Inl ErrIO, wal)
                  | Some f \<Rightarrow>
                      (case segment_Read seg f pool (BlockNumber pos) (sint (ChunkOffset pos)) of
                         None \<Rightarrow> None
                       | Some (Inl e, seg') \<Rightarrow> Some (Inl e, putSegment wal seg')
                       | Some (Inr data, seg') \<Rightarrow>
                           Some (Inr (data, nonce), putSegment wal seg')))))"

section \<open>The WAL reader\<close>

record Reader =
  segmentReaders :: "segmentReader list"
  currentReader :: nat
  valueNum :: int

definition NewReaderWithMax :: "WAL \<Rightarrow> SegmentID \<Rightarrow> Reader" where
  "NewReaderWithMax wal segId =
     \<lparr>segmentReaders =
        sort_key segment_sr
          (map (\<lambda>(i, seg). segment_NewReader seg)
             (filter (\<lambda>(i, seg). segId = 0 \<or> id_seg seg \<le> segId) (olderSegments wal))
           @ (if segId = 0 \<or> id_seg (activeSegment wal) \<le> segId
              then [segment_NewReader (activeSegment wal)] else [])),
      currentReader = 0,
      valueNum = 0\<rparr>"

definition NewReader :: "WAL \<Rightarrow> Reader" where
  "NewReader wal = NewReaderWithMax wal 0"

text \<open>\<^verbatim>\<open>Reader.Next\<close>. After an error other than \<^verbatim>\<open>io.EOF\<close> from the segment reader the
  returned position is nil, and the assignment to \<^verbatim>\<open>position.ValueNum\<close> dereferences it.\<close>

function Reader_Next ::
  "WAL \<Rightarrow> Reader \<Rightarrow> byte list
     \<Rightarrow> ((error + byte list \<times> byte list \<times> ChunkPosition) \<times> Reader \<times> WAL) option" where
  "Reader_Next wal r pool =
     (if currentReader r \<ge> length (segmentReaders r) then Some (Inl EOF, r, wal)
      else
        (case findSegment wal (segment_sr (segmentReaders r ! currentReader r)) of
           None \<Rightarrow> Some (Inl ErrSegmentNotFound, r, wal)
         | Some seg \<Rightarrow>
             (case files (dir wal) (id_seg seg) of
                None \<Rightarrow> Some (Inl ErrIO, r, wal)
              | Some f \<Rightarrow>
                  (case segmentReader_Next (segmentReaders r ! currentReader r) seg f pool of
                     None \<Rightarrow> None
                   | Some (Inl e, sr', seg') \<Rightarrow>
                       if e = EOF
                       then Reader_Next (putSegment wal seg')
                              (r\<lparr>segmentReaders := (segmentReaders r)[currentReader r := sr'],
                                 currentReader := currentReader r + 1\<rparr>) pool
                       else Some (Inl Panic,
                                  r\<lparr>segmentReaders := (segmentReaders r)[currentReader r := sr']\<rparr>,
                                  putSegment wal seg')
                   | Some (Inr (data, position), sr', seg') \<Rightarrow>
                       (case readNonce (nonceFile wal) (word_of_int (valueNum r)) of
                          (n, e, nonce) \<Rightarrow>
                            if n \<noteq> nonceSize \<or> e \<noteq> None
                            then Some (Inl EOF,
                                       r\<lparr>segmentReaders :=
                                           (segmentReaders r)[currentReader r := sr']\<rparr>,
                                       putSegment wal seg')
                            else Some (Inr (data, nonce,
                                            position\<lparr>ValueNum := word_of_int (valueNum r)\<rparr>),
                                       r\<lparr>segmentReaders :=
                                           (segmentReaders r)[currentReader r := sr'],
                                         valueNum := valueNum r + 1\<rparr>,
                                       putSegment wal seg'))))))"
  by pat_completeness auto
termination
  by (relation "measure (\<lambda>(wal, r, pool). length (segmentReaders r) - currentReader r)") auto

declare Reader_Next.simps [simp del]

text \<open>The loop of \<^verbatim>\<open>NewReaderWithStart\<close>; \<^verbatim>\<open>CurrentSegmentId\<close> indexes the segment readers
  and panics past their end.\<close>

partial_function (option) seekStart ::
  "WAL \<Rightarrow> Reader \<Rightarrow> byte list \<Rightarrow> ChunkPosition \<Rightarrow> ((error + Reader) \<times> WAL) option" where
  "seekStart wal reader pool startPos =
     (if currentReader reader \<ge> length (segmentReaders reader) then Some (Inl Panic, wal)
      else if segment_sr (segmentReaders reader ! currentReader reader) < SegmentId startPos
      then seekStart wal (reader\<lparr>currentReader := currentReader reader + 1\<rparr>) pool startPos
      else if blockNumber_sr (segmentReaders reader ! currentReader reader)
                \<ge> BlockNumber startPos
              \<and> chunkOffset_sr (segmentReaders reader ! currentReader reader)
                \<ge> sint (ChunkOffset startPos)
      then Some (Inr reader, wal)
      else
        (case Reader_Next wal reader pool of
           None \<Rightarrow> None
         | Some (Inl e, reader', wal') \<Rightarrow>
             if e = EOF then Some (Inr reader', wal') else Some (Inl e, wal')
         | Some (Inr rec, reader', wal') \<Rightarrow> seekStart wal' reader' pool startPos))"

declare seekStart.simps [code]

definition NewReaderWithStart ::
  "WAL \<Rightarrow> byte list \<Rightarrow> ChunkPosition option \<Rightarrow> ((error + Reader) \<times> WAL) option" where
  "NewReaderWithStart wal pool startPos =
     (case startPos of
        None \<Rightarrow> Some (Inl ErrStartPosNil, wal)
      | Some sp \<Rightarrow> seekStart wal (NewReader wal) pool sp)"

text \<open>\<^verbatim>\<open>OpenNewActiveSegment\<close>: the rotation without the reset of the byte counter.\<close>

definition OpenNewActiveSegment :: "WAL \<Rightarrow> error option \<times> WAL" where
  "OpenNewActiveSegment wal =
     (case syncActive wal of
        (Some e, wal1) \<Rightarrow> (Some e, wal1)
      | (None, wal1) \<Rightarrow>
          (case syncNonce wal1 of
             (Some e, wal2) \<Rightarrow> (Some e, wal2)
           | (None, wal2) \<Rightarrow>
               (case openSegmentFile (dir wal2) (id_seg (activeSegment wal2) + 1) of
                  (Inl e, d') \<Rightarrow> (Some e, wal2\<lparr>dir := d'\<rparr>)
                | (Inr seg, d') \<Rightarrow>
                    (None, wal2\<lparr>dir := d',
                                olderSegments :=
                                  AList.update (id_seg (activeSegment wal2)) (activeSegment wal2)
                                    (olderSegments wal2),
                                activeSegment := seg\<rparr>))))"

section \<open>The framing of a record as the specification words it\<close>

text \<open>A chunk on disk: the seven-byte header followed by the payload.\<close>

definition frame :: "ChunkType \<times> byte list \<Rightarrow> byte list" where
  "frame c = chunkHeader (snd c) (fst c) @ snd c"

text \<open>The chunks after the first one, each starting a fresh block: middle chunks that fill
  a block's payload capacity, then the last chunk with the remainder.\<close>

function splitRest :: "byte list \<Rightarrow> (ChunkType \<times> byte list) list" where
  "splitRest xs =
     (if length xs \<le> blockSize - chunkHeaderSize then [(ChunkTypeLast, xs)]
      else (ChunkTypeMiddle, take (blockSize - chunkHeaderSize) xs)
             # splitRest (drop (blockSize - chunkHeaderSize) xs))"
  by pat_completeness auto
termination
  by (relation "measure length") (auto simp add: blockSize_def chunkHeaderSize_def)

declare splitRest.simps [simp del]

text \<open>The chunks of a record written at in-block cursor \<open>c\<close>: one full chunk when
  \<open>c + 7 + L \<le> 32 KiB\<close>, otherwise a first chunk with \<open>32 KiB - c - 7\<close> payload bytes and
  the rest.\<close>

definition recordChunks :: "nat \<Rightarrow> byte list \<Rightarrow> (ChunkType \<times> byte list) list" where
  "recordChunks c data =
     (if c + chunkHeaderSize + length data \<le> blockSize then [(ChunkTypeFull, data)]
      else (ChunkTypeFirst, take (blockSize - c - chunkHeaderSize) data)
             # splitRest (drop (blockSize - c - chunkHeaderSize) data))"

text \<open>Step 1 of the framing: the number of padding bytes and the cursor of the first chunk.\<close>

definition padLen :: "nat \<Rightarrow> nat" where
  "padLen c = (if c + chunkHeaderSize \<ge> blockSize then blockSize - c else 0)"

definition startOffset :: "nat \<Rightarrow> nat" where
  "startOffset c = (if c + chunkHeaderSize \<ge> blockSize then 0 else c)"

text \<open>The block-relative offsets of consecutive chunks, the first at file offset \<open>pos\<close>.\<close>

fun chunkOffsets :: "nat \<Rightarrow> (ChunkType \<times> byte list) list \<Rightarrow> nat list" where
  "chunkOffsets pos [] = []"
| "chunkOffsets pos (c # cs) =
     (pos mod blockSize) # chunkOffsets (pos + chunkHeaderSize + length (snd c)) cs"

text \<open>The bytes a record adds when it is written at in-block cursor \<open>c\<close>: the padding, then
  the frames of its chunks.\<close>

definition recordBytes :: "nat \<Rightarrow> byte list \<Rightarrow> byte list" where
  "recordBytes c data =
     replicate (padLen c) 0 @ concat (map frame (recordChunks (startOffset c) data))"

text \<open>A batch of records written one after the other from file offset \<open>pos\<close>: the bytes it
  adds, and its chunks, each with its block-relative offset.\<close>

fun batchBytes :: "nat \<Rightarrow> byte list list \<Rightarrow> byte list" where
  "batchBytes pos [] = []"
| "batchBytes pos (d # ds) =
     recordBytes (pos mod blockSize) d
       @ batchBytes (pos + length (recordBytes (pos mod blockSize) d)) ds"

fun batchChunks :: "nat \<Rightarrow> byte list list \<Rightarrow> (nat \<times> ChunkType \<times> byte list) list" where
  "batchChunks pos [] = []"
| "batchChunks pos (d # ds) =
     zip (chunkOffsets (pos + padLen (pos mod blockSize))
            (recordChunks (startOffset (pos mod blockSize)) d))
         (recordChunks (startOffset (pos mod blockSize)) d)
       @ batchChunks (pos + length (recordBytes (pos mod blockSize) d)) ds"

section \<open>Decoding a chunk position\<close>

text \<open>\<^verbatim>\<open>binary.Uvarint(buf)\<close>: the value and the number of bytes read; \<^verbatim>\<open>(0, 0)\<close> when the buffer
  ends inside the varint, \<^verbatim>\<open>(0, -(i+1))\<close> on a 64-bit overflow.\<close>

fun uvarintLoop :: "byte list \<Rightarrow> nat \<Rightarrow> uint64 \<Rightarrow> nat \<Rightarrow> uint64 \<times> int" where
  "uvarintLoop [] i x s = (0, 0)"
| "uvarintLoop (b # bs) i x s =
     (if i = MaxVarintLen64 then (0, - (int i + 1))
      else if b < 0x80 then
        (if i = MaxVarintLen64 - 1 \<and> b > 1 then (0, - (int i + 1))
         else (x OR push_bit s (ucast b), int i + 1))
      else uvarintLoop bs (i + 1) (x OR push_bit s (ucast (b AND 0x7f))) (s + 7))"

definition Uvarint :: "byte list \<Rightarrow> uint64 \<times> int" where
  "Uvarint buf = uvarintLoop buf 0 0 0"

text \<open>\<^verbatim>\<open>v, n := binary.Uvarint(buf[index:]); index += n\<close>\<close>

definition getField :: "byte list \<Rightarrow> int \<Rightarrow> error + (uint64 \<times> int)" where
  "getField buf index =
     bindE (slice buf index (int (length buf))) (\<lambda>rest.
       case Uvarint rest of (v, n) \<Rightarrow> Inr (v, index + n))"

definition DecodeChunkPosition :: "byte list \<Rightarrow> error + ChunkPosition option" where
  "DecodeChunkPosition buf =
     (if length buf = 0 then Inr None
      else
        bindE (getField buf 0) (\<lambda>(segmentId, i1).
        bindE (getField buf i1) (\<lambda>(blockNumber, i2).
        bindE (getField buf i2) (\<lambda>(chunkOffset, i3).
        bindE (getField buf i3) (\<lambda>(chunkSize, i4).
        bindE (getField buf i4) (\<lambda>(valueNum, i5).
          Inr (Some \<lparr>SegmentId = ucast segmentId,
                     BlockNumber = ucast blockNumber,
                     ChunkOffset = chunkOffset,
                     ChunkSize = ucast chunkSize,
                     ValueNum = valueNum\<rparr>)))))))"

section \<open>Stamping a batch\<close>

text \<open>The positions of a batch with consecutive nonce ordinals from \<open>n\<close> on.\<close>

fun stampFrom :: "int \<Rightarrow> ChunkPosition list \<Rightarrow> ChunkPosition list" where
  "stampFrom n [] = []"
| "stampFrom n (p # ps) = p\<lparr>ValueNum := word_of_int n\<rparr> # stampFrom (n + 1) ps"

section \<open>Well-formed states and example states\<close>

text \<open>What must hold of the active segment for its counters to describe its file: the file
  exists, its length is \<^verbatim>\<open>Size()\<close>, the in-block cursor is inside the block, and the startup
  block has the block size.\<close>

definition wfActive :: "WAL \<Rightarrow> bool" where
  "wfActive wal =
     ((case files (dir wal) (id_seg (activeSegment wal)) of
         None \<Rightarrow> False
       | Some f \<Rightarrow> Size (activeSegment wal) = int (length (contents f)))
      \<and> currentBlockSize (activeSegment wal) < of_nat blockSize
      \<and> length (block (startupBlock (activeSegment wal))) = blockSize)"

text \<open>The nonce file holds \<^verbatim>\<open>curNum\<close> whole nonces (and is far from the end of the
  \<^verbatim>\<open>int64\<close> offsets).\<close>

definition wfNonce :: "WAL \<Rightarrow> bool" where
  "wfNonce wal =
     (int (length (contents (fd_nf (nonceFile wal)))) = curNum (nonceFile wal) * int nonceSize
      \<and> length (contents (fd_nf (nonceFile wal))) < 2 ^ 62)"

text \<open>A well-formed WAL: both of the above, and the segment file with the next id does not
  exist yet, as in a directory that only this WAL writes to.\<close>

definition wfWAL :: "WAL \<Rightarrow> bool" where
  "wfWAL wal =
     (wfActive wal \<and> wfNonce wal
      \<and> files (dir wal) (id_seg (activeSegment wal) + 1) = None)"

text \<open>\<^verbatim>\<open>Open\<close> on a data directory without segment files: the nonce file is opened and
  segment 1 is created as the active segment.\<close>

definition OpenEmpty :: "Options \<Rightarrow> Dir \<Rightarrow> File \<Rightarrow> error + WAL" where
  "OpenEmpty opts d nf =
     (case openSegmentFile d 1 of
        (Inl e, d') \<Rightarrow> Inl e
      | (Inr seg, d') \<Rightarrow>
          Inr \<lparr>activeSegment = seg, olderSegments = [], options = opts, bytesWrite = 0,
               pendingWrites = [], pendingNonceWrites = [], pendingSize = 0,
               nonceFile = openNonceFile nf, dir = d'\<rparr>)"

text \<open>Example states: an empty WAL with a segment size of 20 bytes (the second small record
  rotates), whose nonce file can hold \<open>nonceCap\<close> bytes; a twelve-byte nonce.\<close>

definition exampleWAL :: "nat \<Rightarrow> WAL" where
  "exampleWAL nonceCap =
     \<lparr>activeSegment =
        \<lparr>id_seg = 1, currentBlockNumber = 0, currentBlockSize = 0, closed = False,
         startupBlock = \<lparr>block = replicate blockSize 0, blockNumber_sb = -1\<rparr>,
         isStartupTraversal = False\<rparr>,
      olderSegments = [],
      options = \<lparr>SegmentSize = 20, Sync = False, BytesPerSync = 0\<rparr>,
      bytesWrite = 0, pendingWrites = [], pendingNonceWrites = [], pendingSize = 0,
      nonceFile = \<lparr>fd_nf = newFile nonceCap, curNum = 0, closed_nf = False\<rparr>,
      dir = \<lparr>files = [1 \<mapsto> newFile 1000], readOnly = False, quota = 1000\<rparr>\<rparr>"

definition exampleNonce :: "byte list" where
  "exampleNonce = [1, 2, 3, 4, 5, 6, 7, 8, 9, 10, 11, 12]"

text \<open>The example WAL after one three-byte record has been written with that nonce.\<close>

definition exampleWAL1 :: WAL where
  "exampleWAL1 = snd (WAL_Write (exampleWAL 1000) [1, 2, 3] exampleNonce)"

text \<open>After a second record, which rotates: segment 1 holds the first record and segment 2
  the second.\<close>

definition exampleWAL2 :: WAL where
  "exampleWAL2 = snd (WAL_Write exampleWAL1 [4] exampleNonce)"

text \<open>The example WAL after its first record, with a segment size of 100 bytes and two
  records pending, each with the example nonce.\<close>

definition exampleBatch :: WAL where
  "exampleBatch =
     PendingWrites
       (PendingWrites
          (exampleWAL1\<lparr>options := \<lparr>SegmentSize = 100, Sync = False, BytesPerSync = 0\<rparr>\<rparr>)
          [4] exampleNonce)
       [5] exampleNonce"

text \<open>The example WAL after one record written without a nonce, as \<^verbatim>\<open>examples/main.go\<close>
  writes its records.\<close>

definition exampleWAL0 :: WAL where
  "exampleWAL0 = snd (WAL_Write (exampleWAL 1000) [1, 2, 3] [])"

section \<open>Auxiliary facts: words, headers and the write loop\<close>

lemma length_chunkHeader [simp]: "length (chunkHeader d t) = 7"
  by (simp add: chunkHeader_def PutUint16_def PutUint32_def Let_def)

lemma Uint16_PutUint16: "Uint16 (PutUint16 v) = v"
  unfolding Uint16_def PutUint16_def
  by (rule bit_word_eqI) (auto simp add: bit_simps)

lemma Uint32_PutUint32: "Uint32 (PutUint32 v) = v"
proof (rule bit_word_eqI)
  fix n :: nat
  assume "n < LENGTH(32)"
  then have "n < 32" by simp
  then consider "n < 8" | "8 \<le> n" "n < 16" | "16 \<le> n" "n < 24" | "24 \<le> n" "n < 32"
    by linarith
  then show "bit (Uint32 (PutUint32 v)) n = bit v n"
    by cases (auto simp add: Uint32_def PutUint32_def bit_simps)
qed

lemma crcUpdate_append: "crcUpdate (crcUpdate c a) b = crcUpdate c (a @ b)"
  by (simp add: crcUpdate_def)

lemma chunkHeader_parts:
  "take 4 (chunkHeader d t) = PutUint32 (ChecksumIEEE (PutUint16 (of_nat (length d)) @ [t] @ d))"
  "drop 4 (chunkHeader d t) = PutUint16 (of_nat (length d)) @ [t]"
  "chunkHeader d t ! 6 = t"
  by (simp_all add: chunkHeader_def Let_def PutUint32_def PutUint16_def ChecksumIEEE_def crcUpdate_append)

lemma parseChunk_frame:
  assumes "length d < 65536"
  shows "parseChunk (pre @ chunkHeader d t @ d @ post) (int (length pre))
           = Inr (d, t, int (length pre) + 7 + int (length d))"
proof -
  let ?blk = "pre @ chunkHeader d t @ d @ post"
  have h: "slice ?blk (int (length pre)) (int (length pre) + 7) = Inr (chunkHeader d t)"
    by (simp add: slice_def)
  have "take 2 (drop 4 (chunkHeader d t)) = PutUint16 (of_nat (length d))"
    by (simp add: chunkHeader_parts PutUint16_def)
  then have len: "Uint16 (take 2 (drop 4 (chunkHeader d t))) = of_nat (length d)"
    by (simp add: Uint16_PutUint16)
  have ulen: "uint (of_nat (length d) :: uint16) = int (length d)"
    using assms by (simp add: uint_nat unat_of_nat)
  have p: "slice ?blk (int (length pre) + 7) (int (length pre) + 7 + int (length d)) = Inr d"
    by (simp add: slice_def nat_add_distrib)
  have "drop (length pre + 4) ?blk = PutUint16 (of_nat (length d)) @ [t] @ d @ post"
    by (simp add: chunkHeader_parts(2) [symmetric] flip: drop_drop)
  then have c: "slice ?blk (int (length pre) + 4) (int (length pre) + 7 + int (length d))
            = Inr (PutUint16 (of_nat (length d)) @ [t] @ d)"
    by (simp add: slice_def nat_add_distrib PutUint16_def numeral_3_eq_3)
  have s: "Uint32 (take 4 (chunkHeader d t)) = ChecksumIEEE (PutUint16 (of_nat (length d)) @ [t] @ d)"
    by (simp add: chunkHeader_parts(1) Uint32_PutUint32)
  show ?thesis
    by (simp add: parseChunk_def bindE_def h len ulen p c s Let_def chunkHeaderSize_def chunkHeader_parts(3))
qed

lemma u32_unat_bound: "unat (x :: uint32) < 4294967296"
proof -
  have "unat x < 2 ^ LENGTH(32)" by (rule unsigned_less)
  then show ?thesis by simp
qed

lemma u32_unat_of_nat: "n < 2 ^ 32 \<Longrightarrow> unat (of_nat n :: uint32) = n"
  by (simp add: unat_of_nat)

lemma u32_of_nat_eq: "a < 2 ^ 32 \<Longrightarrow> b < 2 ^ 32 \<Longrightarrow> ((of_nat a :: uint32) = of_nat b) = (a = b)"
  by (simp add: word_of_nat_eq_iff take_bit_nat_eq_self)

lemma u32_of_nat_less: "a < 2 ^ 32 \<Longrightarrow> b < 2 ^ 32 \<Longrightarrow> ((of_nat a :: uint32) < of_nat b) = (a < b)"
  by (simp add: word_of_nat_less_iff take_bit_nat_eq_self)

lemma u32_of_nat_le: "a < 2 ^ 32 \<Longrightarrow> b < 2 ^ 32 \<Longrightarrow> ((of_nat a :: uint32) \<le> of_nat b) = (a \<le> b)"
  by (simp add: word_of_nat_less_eq_iff take_bit_nat_eq_self)

lemma u32_of_nat_mod: "a < 2 ^ 32 \<Longrightarrow> b < 2 ^ 32 \<Longrightarrow> (of_nat a :: uint32) mod of_nat b = of_nat (a mod b)"
  by (simp add: word_arith_nat_mod u32_unat_of_nat)

lemma u32_of_nat_div: "a < 2 ^ 32 \<Longrightarrow> b < 2 ^ 32 \<Longrightarrow> (of_nat a :: uint32) div of_nat b = of_nat (a div b)"
  by (simp add: word_arith_nat_div u32_unat_of_nat)

lemma writeChunks_rest:
  assumes L: "unat dataSize = length data"
  shows "0 < leftSize \<Longrightarrow> leftSize < dataSize \<Longrightarrow>
     writeChunks data dataSize leftSize bc 0 buf
       = (buf @ concat (map frame (splitRest (drop (length data - unat leftSize) data))),
          bc + of_nat (length (splitRest (drop (length data - unat leftSize) data))))"
proof (induction "unat leftSize" arbitrary: leftSize bc buf rule: less_induct)
  case less
  let ?L = "length data"
  let ?l = "unat leftSize"
  let ?xs = "drop (?L - ?l) data"
  have lL: "?l < ?L" using less.prems L by (simp add: word_less_nat_alt)
  have lpos: "0 < ?l" using less.prems by (simp add: word_less_nat_alt)
  have lenxs: "length ?xs = ?l" using lL by simp
  have notfirst: "leftSize \<noteq> dataSize" using less.prems by simp
  have ud: "unat (dataSize - leftSize) = ?L - ?l"
    using less.prems L by (simp add: unat_sub)
  have cs: "(of_nat blockSize :: uint32) - 0 - of_nat chunkHeaderSize = 32761"
    by (simp add: blockSize_def chunkHeaderSize_def)
  show ?case
  proof (cases "leftSize \<le> 32761")
    case True
    then have l761: "?l \<le> 32761" by (simp add: word_le_nat_alt)
    have n: "nextChunkSize 0 leftSize = leftSize"
      using True by (auto simp add: nextChunkSize_def blockSize_def chunkHeaderSize_def Let_def)
    have e: "chunkEnd dataSize leftSize leftSize = dataSize"
      by (simp add: chunkEnd_def Let_def)
    have ty: "chunkTypeOf dataSize leftSize leftSize = ChunkTypeLast"
      using notfirst by (simp add: chunkTypeOf_def)
    have sl: "dataSlice data (dataSize - leftSize) dataSize = ?xs"
      using lL by (simp add: dataSlice_def ud L)
    have sr: "splitRest ?xs = [(ChunkTypeLast, ?xs)]"
      using l761 lenxs by (subst splitRest.simps) (simp add: blockSize_def chunkHeaderSize_def)
    show ?thesis
      apply (subst writeChunks.simps)
      apply (simp only: less.prems if_True n e ty sl)
      apply (subst writeChunks.simps)
      apply (simp add: sr frame_def appendChunkBuffer_def)
      done
  next
    case False
    then have big: "32761 < leftSize" by simp
    then have bigl: "32761 < ?l" by (simp add: word_less_nat_alt)
    have n: "nextChunkSize 0 leftSize = 32761"
      using big by (auto simp add: nextChunkSize_def blockSize_def chunkHeaderSize_def Let_def)
    have ue: "unat (dataSize - leftSize + 32761) = ?L - ?l + 32761"
    proof -
      have "unat (dataSize - leftSize) + unat (32761 :: uint32) < 2 ^ LENGTH(32)"
        using ud lL bigl L u32_unat_bound [of dataSize] by simp
      then have "unat (dataSize - leftSize + 32761) = unat (dataSize - leftSize) + unat (32761 :: uint32)"
        by (simp only: unat_add_lem)
      then show ?thesis using ud by simp
    qed
    have "\<not> dataSize < dataSize - leftSize + 32761"
      using ue L lL bigl by (simp add: word_less_nat_alt)
    then have e: "chunkEnd dataSize leftSize 32761 = dataSize - leftSize + 32761"
      by (simp add: chunkEnd_def Let_def)
    have ty: "chunkTypeOf dataSize leftSize 32761 = ChunkTypeMiddle"
      using notfirst big by (auto simp add: chunkTypeOf_def)
    have sl: "dataSlice data (dataSize - leftSize) (dataSize - leftSize + 32761) = take 32761 ?xs"
      by (simp add: dataSlice_def ud ue)
    have ul': "unat (leftSize - 32761) = ?l - 32761"
      using big by (simp add: unat_sub word_le_nat_alt word_less_nat_alt)
    have nb: "((0::uint32) + 32761 + of_nat chunkHeaderSize) mod of_nat blockSize = 0"
      by (simp add: blockSize_def chunkHeaderSize_def)
    have sr: "splitRest ?xs = (ChunkTypeMiddle, take 32761 ?xs) # splitRest (drop 32761 ?xs)"
      using bigl lenxs by (subst splitRest.simps) (simp add: blockSize_def chunkHeaderSize_def)
    have idx: "32761 + (?L - ?l) = ?L - unat (leftSize - 32761)"
      using bigl lL ul' by arith
    have dd: "drop 32761 ?xs = drop (?L - unat (leftSize - 32761)) data"
      by (simp only: drop_drop idx)
    have p1: "0 < leftSize - 32761"
      using ul' bigl by (simp add: word_less_nat_alt)
    have p2: "leftSize - 32761 < dataSize"
      using ul' bigl lL L by (simp add: word_less_nat_alt)
    have p0: "unat (leftSize - 32761) < unat leftSize"
      using ul' bigl by simp
    note IH = less.hyps [OF p0 p1 p2, of "bc + 1" "appendChunkBuffer buf (take 32761 ?xs) ChunkTypeMiddle"]
    show ?thesis
      apply (subst writeChunks.simps)
      apply (simp only: less.prems if_True n e ty sl nb IH)
      apply (simp add: sr idx frame_def appendChunkBuffer_def)
      done
  qed
qed

lemma u32_unat_add: "unat a + unat b < 4294967296 \<Longrightarrow> unat (a + b :: uint32) = unat a + unat b"
  using unat_add_lem [of a b] by simp

lemma concat_snd_splitRest: "concat (map snd (splitRest xs)) = xs"
proof (induction xs rule: splitRest.induct)
  case (1 xs)
  show ?case
  proof (cases "length xs \<le> blockSize - chunkHeaderSize")
    case True
    then show ?thesis by (subst splitRest.simps) simp
  next
    case False
    with 1 show ?thesis by (subst splitRest.simps) simp
  qed
qed

lemma concat_snd_recordChunks: "concat (map snd (recordChunks c data)) = data"
  by (simp add: recordChunks_def concat_snd_splitRest)

lemma length_concat_frames:
  "length (concat (map frame cs)) = length cs * 7 + length (concat (map snd cs))"
  by (induction cs) (auto simp add: frame_def)

lemma length_frames_recordChunks:
  "length (concat (map frame (recordChunks c data))) = length (recordChunks c data) * 7 + length data"
  by (simp add: length_concat_frames concat_snd_recordChunks)

lemma padBlock_eq:
  assumes "currentBlockSize seg < 32768"
  shows "padBlock seg buf =
     (if 32768 \<le> unat (currentBlockSize seg) + 7
      then (32768 - currentBlockSize seg,
            seg\<lparr>currentBlockNumber := currentBlockNumber seg + 1, currentBlockSize := 0\<rparr>,
            buf @ replicate (32768 - unat (currentBlockSize seg)) 0)
      else (0, seg, buf))"
proof -
  have c: "unat (currentBlockSize seg) < 32768"
    using assms by (simp add: word_less_nat_alt)
  then have u: "unat (currentBlockSize seg + 7) = unat (currentBlockSize seg) + 7"
    by (simp add: u32_unat_add)
  have le: "((32768::uint32) \<le> currentBlockSize seg + 7) = (32768 \<le> unat (currentBlockSize seg) + 7)"
    by (simp add: word_le_nat_alt u)
  have s: "unat (32768 - currentBlockSize seg) = 32768 - unat (currentBlockSize seg)"
    using assms by (simp add: unat_sub)
  show ?thesis
    by (simp add: padBlock_def blockSize_def chunkHeaderSize_def le assms s)
qed

lemma emitRecord_chunks:
  assumes c: "unat c1 \<le> 32760" and L: "length data + 32768 \<le> 4294967296"
  shows "emitRecord c1 data b =
           (b @ concat (map frame (recordChunks (unat c1) data)),
            of_nat (length (recordChunks (unat c1) data) * 7 + length data))"
proof -
  let ?L = "length data"
  let ?ds = "of_nat ?L :: uint32"
  have uds: "unat ?ds = ?L" using L by (simp add: u32_unat_of_nat)
  have u1: "unat (c1 + ?ds) = unat c1 + ?L"
    using c L uds by (simp add: u32_unat_add)
  have u2: "unat (c1 + ?ds + 7) = unat c1 + ?L + 7"
    using c L u1 by (simp add: u32_unat_add)
  have test: "(c1 + ?ds + 7 \<le> 32768) = (unat c1 + 7 + ?L \<le> 32768)"
    by (simp add: word_le_nat_alt u2)
  show ?thesis
  proof (cases "unat c1 + 7 + ?L \<le> 32768")
    case True
    then show ?thesis
      by (simp add: emitRecord_def Let_def blockSize_def chunkHeaderSize_def test
          recordChunks_def frame_def appendChunkBuffer_def)
  next
    case False
    let ?n = "32761 - c1 :: uint32"
    have un: "unat ?n = 32761 - unat c1"
    proof -
      have "c1 \<le> 32761" using c by (simp add: word_le_nat_alt)
      then show ?thesis by (simp add: unat_sub)
    qed
    have n1: "32761 - unat c1 < ?L" using False c by arith
    have n2: "0 < 32761 - unat c1" using c by arith
    have n3: "0 < ?L - (32761 - unat c1)" using n1 by arith
    have n4: "?L - (32761 - unat c1) < ?L" using n1 n2 by arith
    have n5: "?L - (?L - (32761 - unat c1)) = 32761 - unat c1" using n1 by arith
    have nlt: "?n < ?ds" by (simp add: word_less_nat_alt un uds n1)
    have npos: "0 < ?n" using n2 by (simp add: word_less_nat_alt un)
    have dpos: "0 < ?ds" using npos nlt by (meson less_trans)
    have n: "nextChunkSize c1 ?ds = ?n"
      using nlt by (auto simp add: nextChunkSize_def blockSize_def chunkHeaderSize_def Let_def)
    have e: "chunkEnd ?ds ?ds ?n = ?n"
      using nlt by (auto simp add: chunkEnd_def Let_def)
    have ty: "chunkTypeOf ?ds ?ds ?n = ChunkTypeFirst"
      by (simp add: chunkTypeOf_def)
    have sl: "dataSlice data (?ds - ?ds) ?n = take (32761 - unat c1) data"
      by (simp add: dataSlice_def un)
    have nb: "(c1 + ?n + of_nat chunkHeaderSize) mod of_nat blockSize = 0"
      by (simp add: blockSize_def chunkHeaderSize_def)
    have "?n \<le> ?ds" using nlt by simp
    then have "unat (?ds - ?n) = unat ?ds - unat ?n" by (rule unat_sub)
    then have uleft: "unat (?ds - ?n) = ?L - (32761 - unat c1)"
      by (simp only: un uds)
    have lpos: "0 < ?ds - ?n"
      by (simp only: word_less_nat_alt uleft unat_0 n3)
    have llt: "?ds - ?n < ?ds"
      by (simp only: word_less_nat_alt uleft uds n4)
    have idx: "?L - unat (?ds - ?n) = 32761 - unat c1"
      by (simp only: uleft n5)
    note rest = writeChunks_rest [OF uds lpos llt, of "0 + 1"
        "appendChunkBuffer b (take (32761 - unat c1) data) ChunkTypeFirst"]
    have loop: "writeChunks data ?ds ?ds 0 c1 b =
        (appendChunkBuffer b (take (32761 - unat c1) data) ChunkTypeFirst
           @ concat (map frame (splitRest (drop (32761 - unat c1) data))),
         1 + of_nat (length (splitRest (drop (32761 - unat c1) data))))"
      apply (subst writeChunks.simps)
      apply (simp only: dpos if_True n e ty sl nb rest idx)
      apply simp
      done
    have rc: "recordChunks (unat c1) data =
        (ChunkTypeFirst, take (32761 - unat c1) data) # splitRest (drop (32761 - unat c1) data)"
      using False by (simp add: recordChunks_def blockSize_def chunkHeaderSize_def)
    have er: "emitRecord c1 data b =
        (case writeChunks data ?ds ?ds 0 c1 b of
           (buf', blockCount) \<Rightarrow> (buf', blockCount * 7 + ?ds))"
      using False by (simp add: emitRecord_def Let_def blockSize_def chunkHeaderSize_def test)
    show ?thesis
      unfolding er loop rc
      by (simp add: frame_def appendChunkBuffer_def ring_distribs)
  qed
qed

lemma of_nat_unat32: "(of_nat (unat (x :: uint32)) :: uint32) = x"
  by simp

lemma padBlock_eq2:
  assumes "currentBlockSize seg < 32768"
  shows "padBlock seg buf =
     (of_nat (padLen (unat (currentBlockSize seg))),
      (if 32768 \<le> unat (currentBlockSize seg) + 7
       then seg\<lparr>currentBlockNumber := currentBlockNumber seg + 1, currentBlockSize := 0\<rparr>
       else seg),
      buf @ replicate (padLen (unat (currentBlockSize seg))) 0)"
proof -
  have c: "unat (currentBlockSize seg) \<le> 32768"
    using assms by (simp add: word_less_nat_alt)
  have "(of_nat (32768 - unat (currentBlockSize seg)) :: uint32) = 32768 - currentBlockSize seg"
    using c by (simp add: of_nat_diff)
  then show ?thesis
    by (simp add: padBlock_eq [OF assms] padLen_def blockSize_def chunkHeaderSize_def)
qed

lemma startOffset_le: "c < 32768 \<Longrightarrow> startOffset c \<le> 32760"
  by (simp add: startOffset_def blockSize_def chunkHeaderSize_def)

lemma writeToBuffer_eq:
  assumes nc: "\<not> closed seg"
    and cb: "currentBlockSize seg < 32768"
    and L: "length data + 32768 \<le> 4294967296"
  shows "writeToBuffer seg data buf =
     (Inr \<lparr>SegmentId = id_seg seg,
           BlockNumber = (if 32768 \<le> unat (currentBlockSize seg) + 7
                          then currentBlockNumber seg + 1 else currentBlockNumber seg),
           ChunkOffset = of_nat (startOffset (unat (currentBlockSize seg))),
           ChunkSize = of_nat (length (recordChunks (startOffset (unat (currentBlockSize seg))) data) * 7
                               + length data),
           ValueNum = 0\<rparr>,
      advanceBlock
        (if 32768 \<le> unat (currentBlockSize seg) + 7
         then seg\<lparr>currentBlockNumber := currentBlockNumber seg + 1, currentBlockSize := 0\<rparr>
         else seg)
        (of_nat (length (recordChunks (startOffset (unat (currentBlockSize seg))) data) * 7
                 + length data)),
      buf @ replicate (padLen (unat (currentBlockSize seg))) 0
          @ concat (map frame (recordChunks (startOffset (unat (currentBlockSize seg))) data)))"
proof -
  let ?c = "unat (currentBlockSize seg)"
  let ?seg1 = "if 32768 \<le> ?c + 7
       then seg\<lparr>currentBlockNumber := currentBlockNumber seg + 1, currentBlockSize := 0\<rparr>
       else seg"
  have c: "?c < 32768" using cb by (simp add: word_less_nat_alt)
  have c1: "unat (currentBlockSize ?seg1) = startOffset ?c"
    by (simp add: startOffset_def blockSize_def chunkHeaderSize_def)
  have c1le: "unat (currentBlockSize ?seg1) \<le> 32760"
    unfolding c1 using c by (rule startOffset_le)
  note er = emitRecord_chunks [OF c1le L, unfolded c1]
  have len: "length (buf @ replicate (padLen ?c) 0
                 @ concat (map frame (recordChunks (startOffset ?c) data))) - length buf
             = padLen ?c + (length (recordChunks (startOffset ?c) data) * 7 + length data)"
    by (simp add: length_frames_recordChunks)
  have uc: "(ucast (currentBlockSize ?seg1) :: uint64) = of_nat (startOffset ?c)"
    unfolding c1 [symmetric] by simp
  have ids: "id_seg ?seg1 = id_seg seg" by simp
  have bn: "currentBlockNumber ?seg1 = (if 32768 \<le> ?c + 7
                          then currentBlockNumber seg + 1 else currentBlockNumber seg)" by simp
  show ?thesis
    unfolding writeToBuffer_def padBlock_eq2 [OF cb]
    apply (simp only: nc if_False prod.case er len uc ids bn)
    apply (simp add: length_frames_recordChunks add.commute)
    done
qed

lemma Size_nat: "Size seg = int (unat (currentBlockNumber seg) * 32768 + unat (currentBlockSize seg))"
  by (simp only: Size_def blockSize_def uint_nat of_nat_add of_nat_mult of_nat_numeral)

lemma advanceBlock_fields:
  assumes c1: "unat (currentBlockSize seg1) < 32768"
    and nov: "unat (currentBlockSize seg1) + unat cs < 4294967296"
    and nb: "unat (currentBlockNumber seg1) + (unat (currentBlockSize seg1) + unat cs) div 32768 < 4294967296"
  shows "unat (currentBlockNumber (advanceBlock seg1 cs)) * 32768
           + unat (currentBlockSize (advanceBlock seg1 cs))
         = unat (currentBlockNumber seg1) * 32768 + unat (currentBlockSize seg1) + unat cs"
    and "unat (currentBlockSize (advanceBlock seg1 cs)) < 32768"
proof -
  define s where "s = currentBlockSize seg1 + cs"
  define a where "a = unat (currentBlockNumber seg1)"
  define k where "k = unat (currentBlockSize seg1)"
  have us: "unat s = k + unat cs"
    unfolding s_def k_def using nov by (rule u32_unat_add)
  have ge: "(32768 \<le> currentBlockSize seg1 + cs) = (32768 \<le> unat s)"
    by (simp add: word_le_nat_alt s_def)
  have ud: "unat (s div 32768) = unat s div 32768"
    by (simp add: unat_div)
  have um: "unat (s mod 32768) = unat s mod 32768"
    by (simp add: unat_mod)
  have "unat (currentBlockNumber seg1) + unat (s div 32768) < 4294967296"
    using nb unfolding ud us k_def .
  then have un: "unat (currentBlockNumber seg1 + s div 32768) = a + unat s div 32768"
    unfolding a_def ud [symmetric] by (rule u32_unat_add)
  have ab: "advanceBlock seg1 cs =
      (if 32768 \<le> unat s
       then seg1\<lparr>currentBlockNumber := currentBlockNumber seg1 + s div 32768,
                 currentBlockSize := s mod 32768\<rparr>
       else seg1\<lparr>currentBlockSize := s\<rparr>)"
    by (simp add: advanceBlock_def Let_def blockSize_def word_le_nat_alt s_def)
  have dm: "(a + unat s div 32768) * 32768 + unat s mod 32768 = a * 32768 + unat s"
    by (simp add: add_mult_distrib)
  show "unat (currentBlockNumber (advanceBlock seg1 cs)) * 32768
           + unat (currentBlockSize (advanceBlock seg1 cs))
         = unat (currentBlockNumber seg1) * 32768 + unat (currentBlockSize seg1) + unat cs"
  proof (cases "32768 \<le> unat s")
    case True
    then have "unat (currentBlockNumber (advanceBlock seg1 cs)) * 32768
           + unat (currentBlockSize (advanceBlock seg1 cs))
           = (a + unat s div 32768) * 32768 + unat s mod 32768"
      by (simp add: ab un um)
    then show ?thesis
      unfolding dm us a_def k_def by simp
  next
    case False
    then show ?thesis
      by (simp add: ab us a_def k_def)
  qed
  show "unat (currentBlockSize (advanceBlock seg1 cs)) < 32768"
  proof (cases "32768 \<le> unat s")
    case True
    then show ?thesis by (simp add: ab um)
  next
    case False
    then show ?thesis by (simp add: ab)
  qed
qed

section \<open>Auxiliary facts: reading a chunk chain\<close>

lemma parseChunk_at:
  assumes fr: "take (7 + length d) (drop c blk) = chunkHeader d t @ d"
    and d: "length d < 65536"
  shows "parseChunk blk (int c) = Inr (d, t, int c + 7 + int (length d))"
proof -
  have "length (take (7 + length d) (drop c blk)) = 7 + length d"
    unfolding fr by (simp add: length_chunkHeader)
  then have len: "c + (7 + length d) \<le> length blk"
    by simp
  have e1: "take (7 + length d) (drop c blk) @ drop (7 + length d) (drop c blk) = drop c blk"
    by (rule append_take_drop_id)
  have e2: "chunkHeader d t @ d @ drop (7 + length d) (drop c blk) = drop c blk"
    using e1 unfolding fr by simp
  have blk: "take c blk @ chunkHeader d t @ d @ drop (7 + length d) (drop c blk) = blk"
    unfolding e2 by (rule append_take_drop_id)
  have lc: "length (take c blk) = c" using len by simp
  show ?thesis
    using parseChunk_frame [OF d, of "take c blk" t "drop (7 + length d) (drop c blk)"]
    unfolding blk lc .
qed

lemma take_drop_take_append:
  assumes "c + m \<le> n" and "n \<le> length xs"
  shows "take m (drop c (take n xs @ ys)) = take m (drop c xs)"
proof -
  have "drop c (take n xs @ ys) = drop c (take n xs) @ ys"
    using assms by simp
  moreover have "drop c (take n xs) = take (n - c) (drop c xs)"
    by (simp add: drop_take)
  moreover have "length (take (n - c) (drop c xs)) = n - c"
    using assms by simp
  ultimately show ?thesis
    using assms by (simp add: min_def)
qed

lemma uint_block_offset: "uint (b :: uint32) * int blockSize = int (unat b * 32768)"
  by (simp only: uint_nat blockSize_def of_nat_mult of_nat_numeral)

lemma blockReadSize_eq:
  assumes "unat b * 32768 \<le> n"
  shows "blockReadSize (int n) b = int (min 32768 (n - unat b * 32768))"
proof -
  define k where "k = unat b * 32768"
  have k: "k \<le> n" using assms by (simp add: k_def)
  have "blockReadSize (int n) b = (if int blockSize + int k > int n then int n - int k else int blockSize)"
    unfolding blockReadSize_def Let_def uint_block_offset k_def ..
  also have "\<dots> = int (min 32768 (n - k))"
    using k by (simp add: blockSize_def min_def of_nat_diff) arith
  finally show ?thesis unfolding k_def .
qed

lemma read_one:
  assumes blk: "length blk = 32768"
    and fr: "take (7 + length d) (drop (unat b * 32768 + c) (contents f)) = chunkHeader d t @ d"
    and fit: "c + 7 + length d \<le> 32768"
    and cache: "st \<longrightarrow> cached \<noteq> uint b"
  shows "int c < blockReadSize (int (length (contents f))) b"
    and "\<exists>blk1. loadBlock st f blk cached b (blockReadSize (int (length (contents f))) b)
             (uint b * int blockSize) = (None, blk1, if st then uint b else cached)
          \<and> length blk1 = 32768
          \<and> parseChunk blk1 (int c) = Inr (d, t, int c + 7 + int (length d))"
proof -
  let ?F = "contents f"
  define k where "k = unat b * 32768"
  define n where "n = min 32768 (length ?F - k)"
  define blk1 where "blk1 = take n (drop k ?F) @ drop n blk"
  have "length (take (7 + length d) (drop (k + c) ?F)) = 7 + length d"
    unfolding k_def fr by (simp add: length_chunkHeader)
  then have inF: "k + c + 7 + length d \<le> length ?F"
    by simp
  then have kF: "k \<le> length ?F" by simp
  have brs: "blockReadSize (int (length ?F)) b = int n"
    unfolding n_def k_def using kF [unfolded k_def] by (rule blockReadSize_eq)
  have nge: "c + 7 + length d \<le> n"
    unfolding n_def using inF fit by simp
  have n32: "n \<le> 32768" unfolding n_def by simp
  have nF: "n \<le> length (drop k ?F)" unfolding n_def by simp
  show "int c < blockReadSize (int (length ?F)) b"
    unfolding brs using nge by simp
  have fra: "fileReadAt f blk (int n) (int k) = (n, None, blk1)"
    using n32 nF by (simp add: fileReadAt_def blk Let_def blk1_def min_def)
  have lb: "loadBlock st f blk cached b (int n) (int k) = (None, blk1, if st then uint b else cached)"
  proof (cases st)
    case True
    then show ?thesis using cache by (simp add: loadBlock_def fra)
  next
    case False
    then show ?thesis by (simp add: loadBlock_def fra)
  qed
  have l1: "length blk1 = 32768"
    unfolding blk1_def using n32 nF blk by simp
  have "take (7 + length d) (drop c blk1) = take (7 + length d) (drop c (drop k ?F))"
    unfolding blk1_def using nge nF by (intro take_drop_take_append) auto
  also have "\<dots> = chunkHeader d t @ d"
    using fr by (simp add: k_def add.commute)
  finally have p: "parseChunk blk1 (int c) = Inr (d, t, int c + 7 + int (length d))"
    using fit by (intro parseChunk_at) auto
  show "\<exists>blk1. loadBlock st f blk cached b (blockReadSize (int (length ?F)) b)
             (uint b * int blockSize) = (None, blk1, if st then uint b else cached)
          \<and> length blk1 = 32768
          \<and> parseChunk blk1 (int c) = Inr (d, t, int c + 7 + int (length d))"
    unfolding brs uint_block_offset k_def [symmetric] using lb l1 p by blast
qed

lemma chunk_types_distinct:
  "ChunkTypeMiddle \<noteq> ChunkTypeFull" "ChunkTypeMiddle \<noteq> ChunkTypeLast"
  "ChunkTypeFirst \<noteq> ChunkTypeFull" "ChunkTypeFirst \<noteq> ChunkTypeLast"
  by (simp_all add: ChunkTypeFull_def ChunkTypeFirst_def ChunkTypeMiddle_def ChunkTypeLast_def)

lemma frame_pair: "frame (t, d) = chunkHeader d t @ d"
  by (simp add: frame_def)

lemma frames_splitRest_pos: "7 \<le> length (concat (map frame (splitRest ys)))"
proof -
  have "splitRest ys \<noteq> []" by (subst splitRest.simps) simp
  then obtain c cs where "splitRest ys = c # cs" by (cases "splitRest ys") auto
  then show ?thesis by (cases c) (simp add: frame_pair)
qed

lemma take_append_split:
  assumes "take (n + m) xs = a @ r" and "length a = n"
  shows "take n xs = a" and "take m (drop n xs) = r"
proof -
  have "take n xs = take n (take (n + m) xs)" by (simp add: min_def)
  also have "\<dots> = a" unfolding assms(1) using assms(2) by simp
  finally show "take n xs = a" .
  have "take m (drop n xs) = drop n (take (n + m) xs)" by (simp add: drop_take)
  also have "\<dots> = r" unfolding assms(1) using assms(2) by simp
  finally show "take m (drop n xs) = r" .
qed

lemma take_append_split_at:
  assumes "take (n + m) (drop k xs) = a @ r" and "length a = n"
  shows "take n (drop k xs) = a" and "take m (drop (k + n) xs) = r"
  using take_append_split [OF assms] by (simp_all add: add.commute)

lemma take_drop_bound:
  assumes "take (length r) (drop j xs) = r" and "0 < length r"
  shows "j + length r \<le> length xs"
proof -
  have "length (take (length r) (drop j xs)) = length r"
    using assms(1) by simp
  then have "min (length r) (length xs - j) = length r" by simp
  then show ?thesis using assms(2) by arith
qed

lemma readChunks_step_final:
  assumes blk: "length blk = 32768"
    and fr: "take (7 + length d) (drop (unat b * 32768 + c) (contents f)) = chunkHeader d t @ d"
    and fit: "c + 7 + length d \<le> 32768"
    and cache: "st \<longrightarrow> cached \<noteq> uint b"
    and ty: "t = ChunkTypeFull \<or> t = ChunkTypeLast"
  shows "\<exists>nb no blk' cached'.
           readChunks st (int (length (contents f))) f blk cached b (int c) res
             = Some (Inr (res @ d, nb, no), blk', cached')"
proof -
  note r1 = read_one [OF blk fr fit cache]
  from r1(2) obtain blk1 where
    lb: "loadBlock st f blk cached b (blockReadSize (int (length (contents f))) b)
             (uint b * int blockSize) = (None, blk1, if st then uint b else cached)"
    and p: "parseChunk blk1 (int c) = Inr (d, t, int c + 7 + int (length d))"
    by blast
  have nge: "\<not> blockReadSize (int (length (contents f))) b \<le> int c"
    using r1(1) by simp
  obtain nb no where na: "nextChunkAfter b (int c + 7 + int (length d)) = (nb, no)"
    by (cases "nextChunkAfter b (int c + 7 + int (length d))") auto
  have "readChunks st (int (length (contents f))) f blk cached b (int c) res
          = Some (Inr (res @ d, nb, no), blk1, if st then uint b else cached)"
    apply (subst readChunks.simps)
    apply (simp only: nge if_False lb prod.case option.case p sum.case ty if_True na)
    done
  then show ?thesis by blast
qed

lemma readChunks_step_cont:
  assumes blk: "length blk = 32768"
    and fr: "take (7 + length d) (drop (unat b * 32768 + c) (contents f)) = chunkHeader d t @ d"
    and fit: "c + 7 + length d \<le> 32768"
    and cache: "st \<longrightarrow> cached \<noteq> uint b"
    and ty: "t \<noteq> ChunkTypeFull" "t \<noteq> ChunkTypeLast"
  shows "\<exists>blk1. length blk1 = 32768 \<and>
           readChunks st (int (length (contents f))) f blk cached b (int c) res
             = readChunks st (int (length (contents f))) f blk1 (if st then uint b else cached)
                 (b + 1) 0 (res @ d)"
proof -
  note r1 = read_one [OF blk fr fit cache]
  from r1(2) obtain blk1 where
    lb: "loadBlock st f blk cached b (blockReadSize (int (length (contents f))) b)
             (uint b * int blockSize) = (None, blk1, if st then uint b else cached)"
    and l1: "length blk1 = 32768"
    and p: "parseChunk blk1 (int c) = Inr (d, t, int c + 7 + int (length d))"
    by blast
  have nge: "\<not> blockReadSize (int (length (contents f))) b \<le> int c"
    using r1(1) by simp
  have tyF: "(t = ChunkTypeFull \<or> t = ChunkTypeLast) = False" using ty by simp
  have "readChunks st (int (length (contents f))) f blk cached b (int c) res
          = readChunks st (int (length (contents f))) f blk1 (if st then uint b else cached)
                 (b + 1) 0 (res @ d)"
    apply (subst readChunks.simps)
    apply (simp only: nge if_False lb prod.case option.case p sum.case tyF)
    done
  with l1 show ?thesis by blast
qed

lemma next_block_unat:
  assumes "unat (b :: uint32) * 32768 + 32768 < 4294967296 * 32768"
  shows "unat (b + 1) = unat b + 1"
proof -
  have "unat b + 1 < 4294967296" using assms by simp
  then have "unat b + unat (1 :: uint32) < 4294967296" by simp
  then have "unat (b + 1) = unat b + unat (1 :: uint32)" by (rule u32_unat_add)
  then show ?thesis by simp
qed

lemma readChunks_rest:
  assumes nowrap: "length (contents f) < 4294967296 * 32768"
  shows "length blk = 32768 \<Longrightarrow>
     take (length (concat (map frame (splitRest xs)))) (drop (unat b * 32768) (contents f))
       = concat (map frame (splitRest xs)) \<Longrightarrow>
     st \<longrightarrow> cached < uint b \<Longrightarrow>
     \<exists>nb no blk' cached'.
        readChunks st (int (length (contents f))) f blk cached b 0 res
          = Some (Inr (res @ xs, nb, no), blk', cached')"
proof (induction xs arbitrary: b blk cached res rule: splitRest.induct)
  case (1 xs)
  let ?F = "contents f"
  let ?k = "unat b * 32768"
  have cache: "st \<longrightarrow> cached \<noteq> uint b" using "1.prems"(3) by auto
  show ?case
  proof (cases "length xs \<le> blockSize - chunkHeaderSize")
    case True
    then have sr: "splitRest xs = [(ChunkTypeLast, xs)]"
      by (subst splitRest.simps) simp
    have fr: "take (7 + length xs) (drop (?k + 0) ?F) = chunkHeader xs ChunkTypeLast @ xs"
      using "1.prems"(2) by (simp add: sr frame_pair)
    have fit: "0 + 7 + length xs \<le> 32768"
      using True by (simp add: blockSize_def chunkHeaderSize_def)
    from readChunks_step_final [OF "1.prems"(1) fr fit cache, where res = res]
    show ?thesis by simp
  next
    case False
    let ?d = "take (blockSize - chunkHeaderSize) xs"
    let ?rest = "splitRest (drop (blockSize - chunkHeaderSize) xs)"
    let ?R = "concat (map frame ?rest)"
    have sr: "splitRest xs = (ChunkTypeMiddle, ?d) # ?rest"
      using False by (subst splitRest.simps) simp
    have ld: "length ?d = 32761"
      using False by (simp add: blockSize_def chunkHeaderSize_def)
    have lf: "length (chunkHeader ?d ChunkTypeMiddle @ ?d) = 32768"
      using ld by simp
    have all: "take (32768 + length ?R) (drop ?k ?F) = (chunkHeader ?d ChunkTypeMiddle @ ?d) @ ?R"
      using "1.prems"(2) lf by (simp add: sr frame_pair)
    note sp = take_append_split_at [OF all lf]
    have fr: "take (7 + length ?d) (drop (?k + 0) ?F) = chunkHeader ?d ChunkTypeMiddle @ ?d"
      using sp(1) ld by simp
    have fit: "0 + 7 + length ?d \<le> 32768" using ld by simp
    from readChunks_step_cont [OF "1.prems"(1) fr fit cache chunk_types_distinct(1,2), where res = res]
    obtain blk1 where l1: "length blk1 = 32768"
      and step: "readChunks st (int (length ?F)) f blk cached b (int 0) res
                  = readChunks st (int (length ?F)) f blk1 (if st then uint b else cached)
                      (b + 1) 0 (res @ ?d)"
      by blast
    have Rpos: "0 < length ?R"
      using frames_splitRest_pos [of "drop (blockSize - chunkHeaderSize) xs"] by linarith
    have inF: "?k + 32768 + length ?R \<le> length ?F"
      using sp(2) Rpos by (rule take_drop_bound)
    have "?k + 32768 < 4294967296 * 32768"
      using nowrap Rpos inF by linarith
    then have ub: "unat (b + 1) = unat b + 1" by (rule next_block_unat)
    have "unat (b + 1) * 32768 = ?k + 32768"
      unfolding ub by simp
    then have fr': "take (length ?R) (drop (unat (b + 1) * 32768) ?F) = ?R"
      using sp(2) by simp
    have "uint (b + 1) = uint b + 1"
      unfolding uint_nat ub by simp
    then have cache': "st \<longrightarrow> (if st then uint b else cached) < uint (b + 1)"
      by simp
    from "1.IH" [OF False l1 fr' cache', where res = "res @ ?d"]
    obtain nb no blk' cached' where
      "readChunks st (int (length ?F)) f blk1 (if st then uint b else cached) (b + 1) 0 (res @ ?d)
         = Some (Inr ((res @ ?d) @ drop (blockSize - chunkHeaderSize) xs, nb, no), blk', cached')"
      by blast
    with step show ?thesis by auto
  qed
qed

lemma readChunks_record:
  assumes nowrap: "length (contents f) < 4294967296 * 32768"
    and blk: "length blk = 32768"
    and c: "c \<le> 32760"
    and fr: "take (length (concat (map frame (recordChunks c data))))
               (drop (unat b * 32768 + c) (contents f))
             = concat (map frame (recordChunks c data))"
    and cache: "st \<longrightarrow> cached < uint b"
  shows "\<exists>nb no blk' cached'.
           readChunks st (int (length (contents f))) f blk cached b (int c) []
             = Some (Inr (data, nb, no), blk', cached')"
proof (cases "c + chunkHeaderSize + length data \<le> blockSize")
  case True
  then have rc: "recordChunks c data = [(ChunkTypeFull, data)]"
    by (simp add: recordChunks_def)
  have fr1: "take (7 + length data) (drop (unat b * 32768 + c) (contents f))
              = chunkHeader data ChunkTypeFull @ data"
    using fr by (simp add: rc frame_pair)
  have fit: "c + 7 + length data \<le> 32768"
    using True by (simp add: blockSize_def chunkHeaderSize_def)
  have cache1: "st \<longrightarrow> cached \<noteq> uint b" using cache by auto
  from readChunks_step_final [OF blk fr1 fit cache1, where res = "[]"]
  show ?thesis by simp
next
  case False
  let ?F = "contents f"
  let ?k = "unat b * 32768"
  define m where "m = blockSize - c - chunkHeaderSize"
  have m: "c + 7 + m = 32768"
    using c by (simp add: m_def blockSize_def chunkHeaderSize_def)
  have mlt: "m < length data"
    using False c by (simp add: m_def blockSize_def chunkHeaderSize_def)
  let ?d = "take m data"
  let ?R = "concat (map frame (splitRest (drop m data)))"
  have rc: "recordChunks c data = (ChunkTypeFirst, ?d) # splitRest (drop m data)"
    using False by (simp add: recordChunks_def m_def)
  have ld: "length ?d = m" using mlt by simp
  have lf: "length (chunkHeader ?d ChunkTypeFirst @ ?d) = 7 + m"
    using ld by simp
  have all: "take ((7 + m) + length ?R) (drop (?k + c) ?F) = (chunkHeader ?d ChunkTypeFirst @ ?d) @ ?R"
    using fr lf by (simp add: rc frame_pair add.assoc)
  note sp = take_append_split_at [OF all lf]
  have fr1: "take (7 + length ?d) (drop (?k + c) ?F) = chunkHeader ?d ChunkTypeFirst @ ?d"
    using sp(1) ld by simp
  have fit: "c + 7 + length ?d \<le> 32768" using ld m by simp
  have cache1: "st \<longrightarrow> cached \<noteq> uint b" using cache by auto
  from readChunks_step_cont [OF blk fr1 fit cache1 chunk_types_distinct(3,4), where res = "[]"]
  obtain blk1 where l1: "length blk1 = 32768"
    and step: "readChunks st (int (length ?F)) f blk cached b (int c) []
                = readChunks st (int (length ?F)) f blk1 (if st then uint b else cached)
                    (b + 1) 0 ([] @ ?d)"
    by blast
  have Rpos: "0 < length ?R"
    using frames_splitRest_pos [of "drop m data"] by linarith
  have inF: "?k + c + (7 + m) + length ?R \<le> length ?F"
    using sp(2) Rpos by (rule take_drop_bound)
  have kk: "?k + c + (7 + m) = ?k + 32768" using m by simp
  have "?k + 32768 < 4294967296 * 32768"
    using nowrap Rpos inF kk by linarith
  then have ub: "unat (b + 1) = unat b + 1" by (rule next_block_unat)
  have "unat (b + 1) * 32768 = ?k + c + (7 + m)"
    unfolding ub kk by simp
  then have fr': "take (length ?R) (drop (unat (b + 1) * 32768) ?F) = ?R"
    using sp(2) by simp
  have "uint (b + 1) = uint b + 1"
    unfolding uint_nat ub by simp
  then have cache': "st \<longrightarrow> (if st then uint b else cached) < uint (b + 1)"
    by simp
  from readChunks_rest [OF nowrap l1 fr' cache', where res = "[] @ ?d"]
  obtain nb no blk' cached' where
    "readChunks st (int (length ?F)) f blk1 (if st then uint b else cached) (b + 1) 0 ([] @ ?d)
       = Some (Inr (([] @ ?d) @ drop m data, nb, no), blk', cached')"
    by blast
  with step show ?thesis by auto
qed

lemma readInternal_record:
  assumes nc: "\<not> closed seg"
    and sz: "Size seg = int (length (contents f))"
    and nowrap: "length (contents f) < 4294967296 * 32768"
    and c: "c \<le> 32760"
    and fr: "take (length (concat (map frame (recordChunks c data))))
               (drop (unat b * 32768 + c) (contents f))
             = concat (map frame (recordChunks c data))"
    and sb: "isStartupTraversal seg \<longrightarrow>
               length (block (startupBlock seg)) = 32768 \<and> blockNumber_sb (startupBlock seg) < uint b"
  shows "\<exists>nextChunk seg'. readInternal seg f pool b (int c) = Some (Inr (data, nextChunk), seg')
           \<and> id_seg seg' = id_seg seg"
proof -
  define blk where "blk = (if isStartupTraversal seg then block (startupBlock seg)
                 else if length pool \<noteq> blockSize then replicate blockSize 0 else pool)"
  have lb: "length blk = 32768"
    using sb by (auto simp add: blk_def blockSize_def)
  have cache: "isStartupTraversal seg \<longrightarrow> blockNumber_sb (startupBlock seg) < uint b"
    using sb by simp
  from readChunks_record [OF nowrap lb c fr cache]
  obtain nb no blk' cached' where
    rc: "readChunks (isStartupTraversal seg) (int (length (contents f))) f blk
           (blockNumber_sb (startupBlock seg)) b (int c) []
         = Some (Inr (data, nb, no), blk', cached')"
    by blast
  show ?thesis
    unfolding readInternal_def sz blk_def [symmetric] rc
    using nc by simp
qed

lemma segment_Read_record:
  assumes nc: "\<not> closed seg"
    and sz: "Size seg = int (length (contents f))"
    and nowrap: "length (contents f) < 4294967296 * 32768"
    and c: "c \<le> 32760"
    and fr: "take (length (concat (map frame (recordChunks c data))))
               (drop (unat b * 32768 + c) (contents f))
             = concat (map frame (recordChunks c data))"
    and sb: "isStartupTraversal seg \<longrightarrow>
               length (block (startupBlock seg)) = 32768 \<and> blockNumber_sb (startupBlock seg) < uint b"
  shows "\<exists>seg'. segment_Read seg f pool b (int c) = Some (Inr data, seg') \<and> id_seg seg' = id_seg seg"
proof -
  from readInternal_record [OF nc sz nowrap c fr sb, of pool]
  obtain nextChunk seg' where
    "readInternal seg f pool b (int c) = Some (Inr (data, nextChunk), seg')" "id_seg seg' = id_seg seg"
    by blast
  then show ?thesis by (simp add: segment_Read_def)
qed

lemma length_splitRest: "length (splitRest xs) \<le> length xs div 32761 + 1"
proof (induction xs rule: splitRest.induct)
  case (1 xs)
  show ?case
  proof (cases "length xs \<le> blockSize - chunkHeaderSize")
    case True
    then show ?thesis by (subst splitRest.simps) simp
  next
    case False
    then have big: "32761 \<le> length xs" by (simp add: blockSize_def chunkHeaderSize_def)
    have "length (splitRest xs) = Suc (length (splitRest (drop (blockSize - chunkHeaderSize) xs)))"
      using False by (subst splitRest.simps) simp
    also have "\<dots> \<le> Suc (length (drop (blockSize - chunkHeaderSize) xs) div 32761 + 1)"
      using "1.IH" [OF False] by simp
    also have "\<dots> = Suc ((length xs - 32761) div 32761 + 1)"
      by (simp add: blockSize_def chunkHeaderSize_def)
    also have "\<dots> = length xs div 32761 + 1"
      using big by (simp add: le_div_geq)
    finally show ?thesis .
  qed
qed

lemma length_recordChunks: "length (recordChunks c data) \<le> length data div 32761 + 2"
proof -
  have "length (splitRest (drop (blockSize - c - chunkHeaderSize) data))
          \<le> length (drop (blockSize - c - chunkHeaderSize) data) div 32761 + 1"
    by (rule length_splitRest)
  also have "\<dots> \<le> length data div 32761 + 1"
    by (simp add: div_le_mono)
  finally show ?thesis by (simp add: recordChunks_def)
qed

section \<open>Auxiliary facts: the segment after a write\<close>

lemma writeChunkBuffer_success:
  assumes "writeChunkBuffer seg f buf = (None, seg', f')"
  shows "seg' = seg\<lparr>startupBlock := (startupBlock seg)\<lparr>blockNumber_sb := -1\<rparr>\<rparr>"
    and "f' = f\<lparr>contents := contents f @ buf\<rparr>"
  using assms
  by (auto simp add: writeChunkBuffer_def fileWrite_def split: if_splits prod.splits option.splits)

lemma segment_Write_success:
  assumes cb: "currentBlockSize seg < 32768"
    and L: "length data + 32768 \<le> 4294967296"
    and w: "segment_Write seg f data = (Inr pos, seg', f')"
  shows "\<not> closed seg"
    and "pos = \<lparr>SegmentId = id_seg seg,
           BlockNumber = (if 32768 \<le> unat (currentBlockSize seg) + 7
                          then currentBlockNumber seg + 1 else currentBlockNumber seg),
           ChunkOffset = of_nat (startOffset (unat (currentBlockSize seg))),
           ChunkSize = of_nat (length (recordChunks (startOffset (unat (currentBlockSize seg))) data) * 7
                               + length data),
           ValueNum = 0\<rparr>"
    and "seg' = (advanceBlock
        (if 32768 \<le> unat (currentBlockSize seg) + 7
         then seg\<lparr>currentBlockNumber := currentBlockNumber seg + 1, currentBlockSize := 0\<rparr>
         else seg)
        (of_nat (length (recordChunks (startOffset (unat (currentBlockSize seg))) data) * 7
                 + length data)))
        \<lparr>startupBlock := (startupBlock seg)\<lparr>blockNumber_sb := -1\<rparr>\<rparr>"
    and "f' = f\<lparr>contents := contents f @ replicate (padLen (unat (currentBlockSize seg))) 0
          @ concat (map frame (recordChunks (startOffset (unat (currentBlockSize seg))) data))\<rparr>"
proof -
  show nc: "\<not> closed seg"
    using w by (auto simp add: segment_Write_def)
  note wb = writeToBuffer_eq [OF nc cb L, of "[]"]
  let ?seg1 = "advanceBlock
        (if 32768 \<le> unat (currentBlockSize seg) + 7
         then seg\<lparr>currentBlockNumber := currentBlockNumber seg + 1, currentBlockSize := 0\<rparr>
         else seg)
        (of_nat (length (recordChunks (startOffset (unat (currentBlockSize seg))) data) * 7
                 + length data))"
  let ?buf = "[] @ replicate (padLen (unat (currentBlockSize seg))) 0
          @ concat (map frame (recordChunks (startOffset (unat (currentBlockSize seg))) data))"
  obtain e seg2 f2 where wc: "writeChunkBuffer ?seg1 f ?buf = (e, seg2, f2)"
    by (cases "writeChunkBuffer ?seg1 f ?buf") auto
  have sw: "segment_Write seg f data =
     (case e of
        Some er \<Rightarrow> (Inl er, restoreCounters seg seg2, f2)
      | None \<Rightarrow>
          (Inr \<lparr>SegmentId = id_seg seg,
           BlockNumber = (if 32768 \<le> unat (currentBlockSize seg) + 7
                          then currentBlockNumber seg + 1 else currentBlockNumber seg),
           ChunkOffset = of_nat (startOffset (unat (currentBlockSize seg))),
           ChunkSize = of_nat (length (recordChunks (startOffset (unat (currentBlockSize seg))) data) * 7
                               + length data),
           ValueNum = 0\<rparr>, seg2, f2))"
    unfolding segment_Write_def wb
    by (simp only: nc if_False prod.case sum.case wc)
  have eN: "e = None"
    using w unfolding sw by (cases e) auto
  have r: "pos = \<lparr>SegmentId = id_seg seg,
           BlockNumber = (if 32768 \<le> unat (currentBlockSize seg) + 7
                          then currentBlockNumber seg + 1 else currentBlockNumber seg),
           ChunkOffset = of_nat (startOffset (unat (currentBlockSize seg))),
           ChunkSize = of_nat (length (recordChunks (startOffset (unat (currentBlockSize seg))) data) * 7
                               + length data),
           ValueNum = 0\<rparr> \<and> seg' = seg2 \<and> f' = f2"
    using w unfolding sw eN by simp
  note ws = writeChunkBuffer_success [OF wc [unfolded eN]]
  show "pos = \<lparr>SegmentId = id_seg seg,
           BlockNumber = (if 32768 \<le> unat (currentBlockSize seg) + 7
                          then currentBlockNumber seg + 1 else currentBlockNumber seg),
           ChunkOffset = of_nat (startOffset (unat (currentBlockSize seg))),
           ChunkSize = of_nat (length (recordChunks (startOffset (unat (currentBlockSize seg))) data) * 7
                               + length data),
           ValueNum = 0\<rparr>"
    using r by simp
  have sb: "startupBlock ?seg1 = startupBlock seg"
    by (simp add: advanceBlock_def Let_def)
  show "seg' = ?seg1\<lparr>startupBlock := (startupBlock seg)\<lparr>blockNumber_sb := -1\<rparr>\<rparr>"
    using r ws(1) unfolding sb by simp
  show "f' = f\<lparr>contents := contents f @ replicate (padLen (unat (currentBlockSize seg))) 0
          @ concat (map frame (recordChunks (startOffset (unat (currentBlockSize seg))) data))\<rparr>"
    using r ws(2) by simp
qed

lemma segment_Write_counters:
  assumes cb: "currentBlockSize seg < 32768"
    and inv: "Size seg = int (length (contents f))"
    and small: "n * 7 + length data + 32768 \<le> 4294967296"
    and bound: "length (contents f) + 7 + (n * 7 + length data) < 4294967296 * 32768"
  defines "seg1 \<equiv> (if 32768 \<le> unat (currentBlockSize seg) + 7
         then seg\<lparr>currentBlockNumber := currentBlockNumber seg + 1, currentBlockSize := 0\<rparr>
         else seg)"
  shows "unat (currentBlockNumber seg1) * 32768 + unat (currentBlockSize seg1)
           = length (contents f) + padLen (unat (currentBlockSize seg))"
    and "unat (currentBlockSize seg1) = startOffset (unat (currentBlockSize seg))"
    and "Size (advanceBlock seg1 (of_nat (n * 7 + length data)))
           = int (length (contents f) + padLen (unat (currentBlockSize seg)) + (n * 7 + length data))"
    and "currentBlockSize (advanceBlock seg1 (of_nat (n * 7 + length data))) < 32768"
proof -
  define a where "a = unat (currentBlockNumber seg)"
  define k where "k = unat (currentBlockSize seg)"
  define cs where "cs = (of_nat (n * 7 + length data) :: uint32)"
  have k: "k < 32768" using cb by (simp add: k_def word_less_nat_alt)
  have "int (a * 32768 + k) = int (length (contents f))"
    using inv unfolding Size_nat a_def k_def .
  then have F: "a * 32768 + k = length (contents f)"
    by (simp only: of_nat_eq_iff)
  have pl: "padLen k \<le> 7 \<and> (32768 \<le> k + 7 \<longrightarrow> k + padLen k = 32768) \<and> (\<not> 32768 \<le> k + 7 \<longrightarrow> padLen k = 0)"
    using k by (simp add: padLen_def blockSize_def chunkHeaderSize_def; arith)
  have a1: "32768 \<le> k + 7 \<Longrightarrow> unat (currentBlockNumber seg + 1) = a + 1"
  proof -
    assume p: "32768 \<le> k + 7"
    have "a * 32768 + 32768 < 4294967296 * 32768"
      using bound F p by linarith
    then have "unat (currentBlockNumber seg) * 32768 + 32768 < 4294967296 * 32768"
      by (simp only: a_def)
    then show ?thesis unfolding a_def by (rule next_block_unat)
  qed
  show s1: "unat (currentBlockNumber seg1) * 32768 + unat (currentBlockSize seg1)
           = length (contents f) + padLen (unat (currentBlockSize seg))"
  proof (cases "32768 \<le> k + 7")
    case True
    have "unat (currentBlockNumber seg1) * 32768 + unat (currentBlockSize seg1) = (a + 1) * 32768"
      using True a1 by (simp add: seg1_def k_def [symmetric])
    also have "\<dots> = length (contents f) + padLen k"
      using pl True F by simp
    finally show ?thesis by (simp only: k_def)
  next
    case False
    have "unat (currentBlockNumber seg1) * 32768 + unat (currentBlockSize seg1) = a * 32768 + k"
      using False by (simp add: seg1_def k_def [symmetric] a_def)
    also have "\<dots> = length (contents f) + padLen k"
      using pl False F by simp
    finally show ?thesis by (simp only: k_def)
  qed
  show s2: "unat (currentBlockSize seg1) = startOffset (unat (currentBlockSize seg))"
    by (simp add: seg1_def startOffset_def blockSize_def chunkHeaderSize_def)
  have so: "startOffset k \<le> 32760"
    using k by (rule startOffset_le)
  have "n * 7 + length data < 2 ^ 32" using small by simp
  then have ucs: "unat cs = n * 7 + length data"
    unfolding cs_def by (rule u32_unat_of_nat)
  have c1: "unat (currentBlockSize seg1) < 32768"
    using so unfolding s2 k_def by simp
  have nov: "unat (currentBlockSize seg1) + unat cs < 4294967296"
    using so small unfolding s2 ucs k_def by simp
  have tot: "unat (currentBlockNumber seg1) * 32768 + (unat (currentBlockSize seg1) + unat cs)
               < 4294967296 * 32768"
    using s1 bound pl unfolding ucs k_def by linarith
  have "(unat (currentBlockNumber seg1) * 32768 + (unat (currentBlockSize seg1) + unat cs)) div 32768
          < 4294967296"
    using tot by (simp only: div_less_iff_less_mult zero_less_numeral) 
  then have nb: "unat (currentBlockNumber seg1) + (unat (currentBlockSize seg1) + unat cs) div 32768
          < 4294967296"
    by simp
  note ab = advanceBlock_fields [OF c1 nov nb]
  have "Size (advanceBlock seg1 cs) = int (unat (currentBlockNumber seg1) * 32768
           + unat (currentBlockSize seg1) + unat cs)"
    unfolding Size_nat ab(1) ..
  also have "\<dots> = int (length (contents f) + padLen (unat (currentBlockSize seg)) + (n * 7 + length data))"
    unfolding s1 ucs ..
  finally show "Size (advanceBlock seg1 (of_nat (n * 7 + length data)))
           = int (length (contents f) + padLen (unat (currentBlockSize seg)) + (n * 7 + length data))"
    unfolding cs_def .
  show "currentBlockSize (advanceBlock seg1 (of_nat (n * 7 + length data))) < 32768"
    using ab(2) unfolding cs_def by (simp add: word_less_nat_alt)
qed

section \<open>Auxiliary facts: the fields of the WAL after its operations\<close>

lemma exampleWAL_Open:
  "OpenEmpty \<lparr>SegmentSize = 20, Sync = False, BytesPerSync = 0\<rparr>
     \<lparr>files = Map.empty, readOnly = False, quota = 1000\<rparr> (newFile c) = Inr (exampleWAL c)"
  by (simp add: OpenEmpty_def openSegmentFile_def exampleWAL_def newFile_def openNonceFile_def)

lemma sint64_of_int: "0 \<le> k \<Longrightarrow> k < 2 ^ 63 \<Longrightarrow> sint (word_of_int k :: uint64) = k"
  by (simp add: sint_sbintrunc' signed_take_bit_int_eq_self)

lemma sint64_of_nat: "n < 2 ^ 63 \<Longrightarrow> sint (of_nat n :: uint64) = int n"
proof -
  assume "n < 2 ^ 63"
  then have "int n < 2 ^ 63" by simp
  then have "sint (word_of_int (int n) :: uint64) = int n"
    by (intro sint64_of_int) auto
  then show ?thesis by simp
qed

lemma syncActive_fields:
  assumes "syncActive wal = (e, wal')"
  shows "activeSegment wal' = activeSegment wal" "olderSegments wal' = olderSegments wal"
    "options wal' = options wal" "nonceFile wal' = nonceFile wal" "bytesWrite wal' = bytesWrite wal"
    "readOnly (dir wal') = readOnly (dir wal)" "quota (dir wal') = quota (dir wal)"
    "map_option contents (files (dir wal') i) = map_option contents (files (dir wal) i)"
    "(files (dir wal') i = None) = (files (dir wal) i = None)"
    "e = None \<Longrightarrow> \<not> closed (activeSegment wal) \<Longrightarrow> files (dir wal) (id_seg (activeSegment wal)) = Some f
       \<Longrightarrow> files (dir wal') (id_seg (activeSegment wal)) = Some (f\<lparr>synced := length (contents f)\<rparr>)"
    "pendingWrites wal' = pendingWrites wal" "pendingNonceWrites wal' = pendingNonceWrites wal"
    "pendingSize wal' = pendingSize wal"
  using assms
  by (auto simp add: syncActive_def segment_Sync_def fileSync_def putFile_def
      split: option.splits if_splits prod.splits)

lemma syncNonce_fields:
  assumes "syncNonce wal = (e, wal')"
  shows "activeSegment wal' = activeSegment wal" "olderSegments wal' = olderSegments wal"
    "options wal' = options wal" "dir wal' = dir wal" "bytesWrite wal' = bytesWrite wal"
    "curNum (nonceFile wal') = curNum (nonceFile wal)"
    "contents (fd_nf (nonceFile wal')) = contents (fd_nf (nonceFile wal))"
    "e = None \<Longrightarrow> \<not> closed_nf (nonceFile wal)
       \<Longrightarrow> synced (fd_nf (nonceFile wal')) = length (contents (fd_nf (nonceFile wal)))"
    "pendingWrites wal' = pendingWrites wal" "pendingNonceWrites wal' = pendingNonceWrites wal"
    "pendingSize wal' = pendingSize wal" "capacity (fd_nf (nonceFile wal')) = capacity (fd_nf (nonceFile wal))"
  using assms
  by (auto simp add: syncNonce_def nonceFile_Sync_def fileSync_def
      split: option.splits if_splits prod.splits)

lemma syncIfNeeded_fields:
  assumes "syncIfNeeded wal p = (Inr q, wal')"
  shows "q = p" "activeSegment wal' = activeSegment wal" "olderSegments wal' = olderSegments wal"
    "options wal' = options wal"
    "curNum (nonceFile wal') = curNum (nonceFile wal)"
    "contents (fd_nf (nonceFile wal')) = contents (fd_nf (nonceFile wal))"
    "map_option contents (files (dir wal') i) = map_option contents (files (dir wal) i)"
proof -
  let ?w1 = "wal\<lparr>bytesWrite := bytesWrite wal + ChunkSize p\<rparr>"
  obtain e1 w2 where s1: "syncActive ?w1 = (e1, w2)" by (cases "syncActive ?w1") auto
  obtain e2 w3 where s2: "syncNonce w2 = (e2, w3)" by (cases "syncNonce w2") auto
  note f1 = syncActive_fields [OF s1]
  note f2 = syncNonce_fields [OF s2]
  have r: "(q = p \<and> wal' = ?w1) \<or> (q = p \<and> wal' = w3\<lparr>bytesWrite := 0\<rparr>)"
    using assms unfolding syncIfNeeded_def Let_def s1
    by (auto simp add: s2 split: if_splits option.splits)
  show "q = p" using r by auto
  show "activeSegment wal' = activeSegment wal" using r f1(1) f2(1) by auto
  show "olderSegments wal' = olderSegments wal" using r f1(2) f2(2) by auto
  show "options wal' = options wal" using r f1(3) f2(3) by auto
  show "curNum (nonceFile wal') = curNum (nonceFile wal)" using r f1(4) f2(6) by auto
  show "contents (fd_nf (nonceFile wal')) = contents (fd_nf (nonceFile wal))" using r f1(4) f2(7) by auto
  show "map_option contents (files (dir wal') i) = map_option contents (files (dir wal) i)"
    using r f1(8) [of i] f2(4) by auto
qed

lemma rotate_fields:
  assumes r: "rotateActiveSegment wal = (None, wal')"
    and nxt: "files (dir wal) (id_seg (activeSegment wal) + 1) = None"
  shows "activeSegment wal' =
           \<lparr>id_seg = id_seg (activeSegment wal) + 1, currentBlockNumber = 0, currentBlockSize = 0,
            closed = False,
            startupBlock = \<lparr>block = replicate blockSize 0, blockNumber_sb = -1\<rparr>,
            isStartupTraversal = False\<rparr>"
    and "olderSegments wal' =
           AList.update (id_seg (activeSegment wal)) (activeSegment wal) (olderSegments wal)"
    and "options wal' = options wal"
    and "curNum (nonceFile wal') = curNum (nonceFile wal)"
    and "contents (fd_nf (nonceFile wal')) = contents (fd_nf (nonceFile wal))"
    and "files (dir wal') (id_seg (activeSegment wal) + 1) = Some (newFile (quota (dir wal)))"
    and "\<not> closed_nf (nonceFile wal)
           \<Longrightarrow> synced (fd_nf (nonceFile wal')) = length (contents (fd_nf (nonceFile wal)))"
    and "\<not> closed (activeSegment wal)
           \<Longrightarrow> files (dir wal) (id_seg (activeSegment wal)) = Some f
           \<Longrightarrow> files (dir wal') (id_seg (activeSegment wal)) = Some (f\<lparr>synced := length (contents f)\<rparr>)"
proof -
  obtain e1 w1 where s1: "syncActive wal = (e1, w1)" by (cases "syncActive wal") auto
  obtain e2 w2 where s2: "syncNonce w1 = (e2, w2)" by (cases "syncNonce w1") auto
  note f1 = syncActive_fields [OF s1]
  note f2 = syncNonce_fields [OF s2]
  have e1: "e1 = None" using r unfolding rotateActiveSegment_def s1 by (cases e1) auto
  have e2: "e2 = None" using r unfolding rotateActiveSegment_def s1 e1 by (cases e2) (auto simp add: s2)
  have a2: "activeSegment w2 = activeSegment wal" using f1(1) f2(1) by simp
  have n2: "files (dir w2) (id_seg (activeSegment wal) + 1) = None"
    using nxt f1(9) [of "id_seg (activeSegment wal) + 1"] f2(4) by simp
  have q2: "quota (dir w2) = quota (dir wal)" using f1(7) f2(4) by simp
  have ro: "\<not> readOnly (dir w2)"
    using r unfolding rotateActiveSegment_def s1 e1
    by (auto simp add: s2 e2 a2 openSegmentFile_def n2 split: if_splits)
  have w': "wal' = w2\<lparr>bytesWrite := 0,
               dir := (dir w2)\<lparr>files := (files (dir w2))(id_seg (activeSegment wal) + 1 \<mapsto> newFile (quota (dir w2)))\<rparr>,
               olderSegments := AList.update (id_seg (activeSegment wal)) (activeSegment wal) (olderSegments w2),
               activeSegment := \<lparr>id_seg = id_seg (activeSegment wal) + 1, currentBlockNumber = 0, currentBlockSize = 0,
            closed = False,
            startupBlock = \<lparr>block = replicate blockSize 0, blockNumber_sb = -1\<rparr>,
            isStartupTraversal = False\<rparr>\<rparr>"
    using r ro unfolding rotateActiveSegment_def s1 e1
    by (simp add: s2 e2 a2 openSegmentFile_def n2 newFile_def)
  show "activeSegment wal' =
           \<lparr>id_seg = id_seg (activeSegment wal) + 1, currentBlockNumber = 0, currentBlockSize = 0,
            closed = False,
            startupBlock = \<lparr>block = replicate blockSize 0, blockNumber_sb = -1\<rparr>,
            isStartupTraversal = False\<rparr>"
    by (simp add: w')
  show "olderSegments wal' =
           AList.update (id_seg (activeSegment wal)) (activeSegment wal) (olderSegments wal)"
    using f1(2) f2(2) by (simp add: w')
  show "options wal' = options wal" using f1(3) f2(3) by (simp add: w')
  show "curNum (nonceFile wal') = curNum (nonceFile wal)" using f1(4) f2(6) by (simp add: w')
  show "contents (fd_nf (nonceFile wal')) = contents (fd_nf (nonceFile wal))"
    using f1(4) f2(7) by (simp add: w')
  show "files (dir wal') (id_seg (activeSegment wal) + 1) = Some (newFile (quota (dir wal)))"
    by (simp add: w' q2)
  show "synced (fd_nf (nonceFile wal')) = length (contents (fd_nf (nonceFile wal)))"
    if "\<not> closed_nf (nonceFile wal)"
    using that f1(4) f2(8) [OF e2] by (simp add: w')
  show "files (dir wal') (id_seg (activeSegment wal)) = Some (f\<lparr>synced := length (contents f)\<rparr>)"
    if "\<not> closed (activeSegment wal)" "files (dir wal) (id_seg (activeSegment wal)) = Some f"
    using f1(10) [OF e1 that] f2(4) by (simp add: w')
qed


lemmas wal_eval =
  WAL_Write_def rotateIfFull_def isFull_def Size_def maxDataWriteSize_def rotateActiveSegment_def
  syncActive_def segment_Sync_def fileSync_def putFile_def syncNonce_def nonceFile_Sync_def
  openSegmentFile_def newFile_def segment_Write_def writeToBuffer_def padBlock_def emitRecord_def
  appendChunkBuffer_def advanceBlock_def writeChunkBuffer_def fileWrite_def nonceFile_Write_def
  syncIfNeeded_def blockSize_def chunkHeaderSize_def nonceSize_def Let_def

lemma exampleWAL_write1:
  "WAL_Write (exampleWAL c) [1, 2, 3] [] =
     (Inr \<lparr>SegmentId = 1, BlockNumber = 0, ChunkOffset = 0, ChunkSize = 10, ValueNum = 0\<rparr>,
      (exampleWAL c)
        \<lparr>activeSegment := (activeSegment (exampleWAL c))\<lparr>currentBlockSize := 10\<rparr>,
         bytesWrite := 10,
         dir := \<lparr>files = [1 \<mapsto> \<lparr>contents = chunkHeader [1, 2, 3] ChunkTypeFull @ [1, 2, 3],
                                  synced = 0, capacity = 1000, syncFails = False\<rparr>],
                 readOnly = False, quota = 1000\<rparr>\<rparr>)"
  by (simp add: exampleWAL_def wal_eval)

lemma exampleWAL_write1n:
  "WAL_Write (exampleWAL 1000) [1, 2, 3] exampleNonce =
     (Inr \<lparr>SegmentId = 1, BlockNumber = 0, ChunkOffset = 0, ChunkSize = 10, ValueNum = 0\<rparr>,
      (exampleWAL 1000)
        \<lparr>activeSegment := (activeSegment (exampleWAL 1000))\<lparr>currentBlockSize := 10\<rparr>,
         bytesWrite := 10,
         nonceFile := \<lparr>fd_nf = \<lparr>contents = exampleNonce, synced = 0, capacity = 1000,
                                  syncFails = False\<rparr>, curNum = 1, closed_nf = False\<rparr>,
         dir := \<lparr>files = [1 \<mapsto> \<lparr>contents = chunkHeader [1, 2, 3] ChunkTypeFull @ [1, 2, 3],
                                  synced = 0, capacity = 1000, syncFails = False\<rparr>],
                 readOnly = False, quota = 1000\<rparr>\<rparr>)"
  by (simp add: exampleWAL_def exampleNonce_def wal_eval)

lemma openSegmentFile_fields:
  assumes "openSegmentFile d i = (Inr seg, d')"
  shows "id_seg seg = i" "\<not> closed seg" "j \<noteq> i \<Longrightarrow> files d' j = files d j"
    "readOnly d' = readOnly d" "quota d' = quota d"
  using assms
  by (auto simp add: openSegmentFile_def split: option.splits if_splits)

lemma rotate_general:
  assumes r: "rotateActiveSegment wal = (None, wal')"
  shows "id_seg (activeSegment wal') = id_seg (activeSegment wal) + 1"
    and "olderSegments wal' =
           AList.update (id_seg (activeSegment wal)) (activeSegment wal) (olderSegments wal)"
    and "options wal' = options wal"
    and "curNum (nonceFile wal') = curNum (nonceFile wal)"
    and "contents (fd_nf (nonceFile wal')) = contents (fd_nf (nonceFile wal))"
    and "\<not> closed_nf (nonceFile wal)
           \<Longrightarrow> synced (fd_nf (nonceFile wal')) = length (contents (fd_nf (nonceFile wal)))"
    and "\<not> closed (activeSegment wal)
           \<Longrightarrow> files (dir wal) (id_seg (activeSegment wal)) = Some f
           \<Longrightarrow> files (dir wal') (id_seg (activeSegment wal)) = Some (f\<lparr>synced := length (contents f)\<rparr>)"
    and "pendingWrites wal' = pendingWrites wal"
    and "pendingNonceWrites wal' = pendingNonceWrites wal"
    and "capacity (fd_nf (nonceFile wal')) = capacity (fd_nf (nonceFile wal))"
proof -
  obtain e1 w1 where s1: "syncActive wal = (e1, w1)" by (cases "syncActive wal") auto
  obtain e2 w2 where s2: "syncNonce w1 = (e2, w2)" by (cases "syncNonce w1") auto
  note f1 = syncActive_fields [OF s1]
  note f2 = syncNonce_fields [OF s2]
  have e1: "e1 = None" using r unfolding rotateActiveSegment_def s1 by (cases e1) auto
  have e2: "e2 = None" using r unfolding rotateActiveSegment_def s1 e1 by (cases e2) (auto simp add: s2)
  have a2: "activeSegment w2 = activeSegment wal" using f1(1) f2(1) by simp
  obtain r3 d' where o: "openSegmentFile (dir w2) (id_seg (activeSegment wal) + 1) = (r3, d')"
    by (cases "openSegmentFile (dir w2) (id_seg (activeSegment wal) + 1)") auto
  obtain seg where r3: "r3 = Inr seg"
    using r unfolding rotateActiveSegment_def s1 e1 by (cases r3) (auto simp add: s2 e2 a2 o)
  note fo = openSegmentFile_fields [OF o [unfolded r3]]
  have w': "wal' = w2\<lparr>bytesWrite := 0, dir := d',
               olderSegments := AList.update (id_seg (activeSegment wal)) (activeSegment wal) (olderSegments w2),
               activeSegment := seg\<rparr>"
    using r unfolding rotateActiveSegment_def s1 e1
    by (simp add: s2 e2 a2 o r3)
  show "id_seg (activeSegment wal') = id_seg (activeSegment wal) + 1"
    by (simp add: w' fo(1))
  show "olderSegments wal' =
           AList.update (id_seg (activeSegment wal)) (activeSegment wal) (olderSegments wal)"
    using f1(2) f2(2) by (simp add: w')
  show "options wal' = options wal" using f1(3) f2(3) by (simp add: w')
  show "curNum (nonceFile wal') = curNum (nonceFile wal)" using f1(4) f2(6) by (simp add: w')
  show "contents (fd_nf (nonceFile wal')) = contents (fd_nf (nonceFile wal))"
    using f1(4) f2(7) by (simp add: w')
  show "synced (fd_nf (nonceFile wal')) = length (contents (fd_nf (nonceFile wal)))"
    if "\<not> closed_nf (nonceFile wal)"
    using that f1(4) f2(8) [OF e2] by (simp add: w')
  show "files (dir wal') (id_seg (activeSegment wal)) = Some (f\<lparr>synced := length (contents f)\<rparr>)"
    if "\<not> closed (activeSegment wal)" "files (dir wal) (id_seg (activeSegment wal)) = Some f"
  proof -
    have "id_seg (activeSegment wal) \<noteq> id_seg (activeSegment wal) + 1" by simp
    then have "files d' (id_seg (activeSegment wal)) = files (dir w2) (id_seg (activeSegment wal))"
      by (rule fo(3))
    then show ?thesis
      using f1(10) [OF e1 that] f2(4) by (simp add: w')
  qed
  show "pendingWrites wal' = pendingWrites wal" using f1(11) f2(9) by (simp add: w')
  show "pendingNonceWrites wal' = pendingNonceWrites wal" using f1(12) f2(10) by (simp add: w')
  show "capacity (fd_nf (nonceFile wal')) = capacity (fd_nf (nonceFile wal))"
    using f1(4) f2(12) by (simp add: w')
qed

lemma segment_Write_id:
  assumes "segment_Write seg f data = (Inr pos, seg', f')"
  shows "SegmentId pos = id_seg seg" "id_seg seg' = id_seg seg"
  using assms
  by (auto simp add: segment_Write_def writeToBuffer_def padBlock_def writeChunkBuffer_def
      advanceBlock_def Let_def
      split: if_splits prod.splits sum.splits option.splits)

lemma nonceFile_Write_fields:
  assumes "nonceFile_Write nf nonce position = (None, pos, nf')"
  shows "SegmentId pos = SegmentId position"
    and "nonce = [] \<Longrightarrow> pos = position \<and> nf' = nf"
    and "nonce \<noteq> [] \<Longrightarrow> pos = position\<lparr>ValueNum := word_of_int (curNum nf)\<rparr>
           \<and> contents (fd_nf nf') = contents (fd_nf nf) @ nonce
           \<and> curNum nf' = curNum nf + 1"
  using assms
  by (auto simp add: nonceFile_Write_def fileWrite_def split: if_splits prod.splits option.splits)

lemma WAL_Write_success:
  assumes w: "WAL_Write wal data nonce = (Inr pos, wal')"
  obtains wal1 f position seg' f' nf' where
    "rotateIfFull wal (isFull wal (int (length data))) = (None, wal1)"
    "files (dir wal1) (id_seg (activeSegment wal1)) = Some f"
    "segment_Write (activeSegment wal1) f data = (Inr position, seg', f')"
    "nonceFile_Write (nonceFile wal1) nonce position = (None, pos, nf')"
    "syncIfNeeded (putFile (wal1\<lparr>activeSegment := seg', nonceFile := nf'\<rparr>) (id_seg seg') f') pos
       = (Inr pos, wal')"
    "int (length data) + 7 \<le> SegmentSize (options wal)"
proof -
  have vt: "\<not> int (length data) + int chunkHeaderSize > SegmentSize (options wal)"
    using w by (auto simp add: WAL_Write_def)
  obtain e1 wal1 where r: "rotateIfFull wal (isFull wal (int (length data))) = (e1, wal1)"
    by (cases "rotateIfFull wal (isFull wal (int (length data)))") auto
  have e1: "e1 = None"
    using w vt unfolding WAL_Write_def r by (cases e1) auto
  obtain f where f: "files (dir wal1) (id_seg (activeSegment wal1)) = Some f"
    using w vt unfolding WAL_Write_def r e1
    by (cases "files (dir wal1) (id_seg (activeSegment wal1))") auto
  obtain res seg' f' where sw: "segment_Write (activeSegment wal1) f data = (res, seg', f')"
    by (cases "segment_Write (activeSegment wal1) f data") auto
  obtain position where res: "res = Inr position"
    using w vt unfolding WAL_Write_def r e1 by (cases res) (auto simp add: f sw)
  obtain e3 p3 nf' where nw: "nonceFile_Write (nonceFile wal1) nonce position = (e3, p3, nf')"
    by (cases "nonceFile_Write (nonceFile wal1) nonce position") auto
  have e3: "e3 = None"
    using w vt unfolding WAL_Write_def r e1 by (cases e3) (auto simp add: f sw res nw)
  have sy: "syncIfNeeded (putFile (wal1\<lparr>activeSegment := seg', nonceFile := nf'\<rparr>) (id_seg seg') f') p3
       = (Inr pos, wal')"
    using w vt unfolding WAL_Write_def r e1 by (simp add: f sw res nw e3)
  have p3: "pos = p3" by (rule syncIfNeeded_fields(1) [OF sy])
  have six: "int (length data) + 7 \<le> SegmentSize (options wal)"
    using vt by (simp add: chunkHeaderSize_def)
  show thesis
    by (rule that [OF r [unfolded e1] f sw [unfolded res] nw [unfolded e3 p3 [symmetric]]
          sy [unfolded p3 [symmetric]] six])
qed

lemma rotateIfFull_fields:
  assumes "rotateIfFull wal full = (None, wal1)"
  shows "options wal1 = options wal"
    and "curNum (nonceFile wal1) = curNum (nonceFile wal)"
    and "contents (fd_nf (nonceFile wal1)) = contents (fd_nf (nonceFile wal))"
    and "id_seg (activeSegment wal1) = (if full then id_seg (activeSegment wal) + 1
                                         else id_seg (activeSegment wal))"
    and "olderSegments wal1 =
           (if full then AList.update (id_seg (activeSegment wal)) (activeSegment wal) (olderSegments wal)
            else olderSegments wal)"
    and "pendingWrites wal1 = pendingWrites wal"
    and "pendingNonceWrites wal1 = pendingNonceWrites wal"
    and "capacity (fd_nf (nonceFile wal1)) = capacity (fd_nf (nonceFile wal))"
  using assms rotate_general [of wal wal1]
  by (auto simp add: rotateIfFull_def split: if_splits)

lemma exampleWAL1_eq:
  "exampleWAL1 =
      (exampleWAL 1000)
        \<lparr>activeSegment := (activeSegment (exampleWAL 1000))\<lparr>currentBlockSize := 10\<rparr>,
         bytesWrite := 10,
         nonceFile := \<lparr>fd_nf = \<lparr>contents = exampleNonce, synced = 0, capacity = 1000,
                                  syncFails = False\<rparr>, curNum = 1, closed_nf = False\<rparr>,
         dir := \<lparr>files = [1 \<mapsto> \<lparr>contents = chunkHeader [1, 2, 3] ChunkTypeFull @ [1, 2, 3],
                                  synced = 0, capacity = 1000, syncFails = False\<rparr>],
                 readOnly = False, quota = 1000\<rparr>\<rparr>"
  by (simp add: exampleWAL1_def exampleWAL_write1n)

lemma writeAllToBuffer_length:
  "writeAllToBuffer seg ds buf = (Inr ps, seg', buf') \<Longrightarrow> length ps = length ds"
proof (induction ds arbitrary: seg buf ps seg' buf')
  case Nil
  then show ?case by simp
next
  case (Cons d ds)
  then show ?case
    by (auto split: prod.splits sum.splits)
qed

lemma segment_writeAll_length:
  "segment_writeAll seg f ds = (Inr ps, seg', f') \<Longrightarrow> length ps = length ds"
  by (auto simp add: segment_writeAll_def Let_def writeAllToBuffer_length
      split: if_splits prod.splits sum.splits option.splits)

lemma length_stampFrom [simp]: "length (stampFrom n ps) = length ps"
  by (induction ps arbitrary: n) simp_all

lemma stampFrom_nth:
  "i < length ps \<Longrightarrow> ValueNum (stampFrom n ps ! i) = word_of_int (n + int i)"
proof (induction ps arbitrary: n i)
  case Nil
  then show ?case by simp
next
  case (Cons p ps)
  show ?case
  proof (cases i)
    case 0
    then show ?thesis by simp
  next
    case (Suc j)
    then have "j < length ps" using Cons.prems by simp
    from Cons.IH [OF this, of "n + 1"] show ?thesis
      by (simp add: Suc add.assoc)
  qed
qed

lemma nonceFile_writeAll_fits:
  "length (contents (fd_nf nf)) + length (concat ns) \<le> capacity (fd_nf nf)
   \<Longrightarrow> length ps = length ns
   \<Longrightarrow> nonceFile_writeAll nf ns ps =
        (None, stampFrom (curNum nf) ps,
         nf\<lparr>fd_nf := (fd_nf nf)\<lparr>contents := contents (fd_nf nf) @ concat ns\<rparr>,
            curNum := curNum nf + int (length ns)\<rparr>)"
proof (induction ns arbitrary: nf ps)
  case Nil
  then show ?case by simp
next
  case (Cons n ns)
  then obtain p ps' where ps: "ps = p # ps'" by (cases ps) auto
  let ?nf1 = "nf\<lparr>fd_nf := (fd_nf nf)\<lparr>contents := contents (fd_nf nf) @ n\<rparr>, curNum := curNum nf + 1\<rparr>"
  have fits: "length (contents (fd_nf ?nf1)) + length (concat ns) \<le> capacity (fd_nf ?nf1)"
    using Cons.prems(1) by simp
  have len: "length ps' = length ns" using Cons.prems(2) ps by simp
  show ?case
    using Cons.IH [OF fits len] Cons.prems(1)
    by (simp add: ps fileWrite_def Let_def)
qed


lemma WAL_WriteAll_success:
  assumes w: "WAL_WriteAll wal = (Inr ps, wal')" and ne: "pendingWrites wal \<noteq> []"
  obtains wal1 f positions seg' f' e nf' where
    "rotateIfFull wal (Size (activeSegment wal) + pendingSize wal > SegmentSize (options wal))
       = (None, wal1)"
    "files (dir wal1) (id_seg (activeSegment wal1)) = Some f"
    "segment_writeAll (activeSegment wal1) f (pendingWrites wal1) = (Inr positions, seg', f')"
    "nonceFile_writeAll (nonceFile wal1) (pendingNonceWrites wal1) positions = (e, ps, nf')"
    "wal' = ClearPendingWrites (putFile (wal1\<lparr>activeSegment := seg', nonceFile := nf'\<rparr>)
                                   (id_seg seg') f')"
proof -
  let ?full = "Size (activeSegment wal) + pendingSize wal > SegmentSize (options wal)"
  have vt: "\<not> pendingSize wal > SegmentSize (options wal)"
    using w ne by (auto simp add: WAL_WriteAll_def)
  obtain e1 wal1 where r: "rotateIfFull wal ?full = (e1, wal1)"
    by (cases "rotateIfFull wal ?full") auto
  have e1: "e1 = None"
    using w vt ne unfolding WAL_WriteAll_def r by (cases e1) auto
  obtain f where f: "files (dir wal1) (id_seg (activeSegment wal1)) = Some f"
    using w vt ne unfolding WAL_WriteAll_def r e1
    by (cases "files (dir wal1) (id_seg (activeSegment wal1))") auto
  obtain res seg' f' where
    sw: "segment_writeAll (activeSegment wal1) f (pendingWrites wal1) = (res, seg', f')"
    by (cases "segment_writeAll (activeSegment wal1) f (pendingWrites wal1)") auto
  obtain positions where res: "res = Inr positions"
    using w vt ne unfolding WAL_WriteAll_def r e1 by (cases res) (auto simp add: f sw)
  obtain e3 p3 nf' where
    nw: "nonceFile_writeAll (nonceFile wal1) (pendingNonceWrites wal1) positions = (e3, p3, nf')"
    by (cases "nonceFile_writeAll (nonceFile wal1) (pendingNonceWrites wal1) positions") auto
  have fin: "ps = p3 \<and> wal' = ClearPendingWrites
       (putFile (wal1\<lparr>activeSegment := seg', nonceFile := nf'\<rparr>) (id_seg seg') f')"
    using w vt ne unfolding WAL_WriteAll_def r e1 by (simp add: f sw res nw)
  show thesis
    by (rule that [OF r [unfolded e1] f sw [unfolded res] nw [folded conjunct1 [OF fin]]
          conjunct2 [OF fin]])
qed

lemma exampleWAL1_fields:
  "curNum (nonceFile exampleWAL1) = 1"
  "contents (fd_nf (nonceFile exampleWAL1)) = exampleNonce"
  "Size (activeSegment exampleWAL1) = 10"
  "SegmentSize (options exampleWAL1) = 20"
  "id_seg (activeSegment exampleWAL1) = 1"
  by (simp_all add: exampleWAL1_eq exampleWAL_def Size_def blockSize_def)

lemma segment_Write_ValueNum:
  assumes "segment_Write seg f data = (Inr pos, seg', f')"
  shows "ValueNum pos = 0"
  using assms
  by (auto simp add: segment_Write_def writeToBuffer_def padBlock_def writeChunkBuffer_def
      Let_def
      split: if_splits prod.splits sum.splits option.splits)

lemma unat64_of_int: "0 \<le> k \<Longrightarrow> k < 2 ^ 64 \<Longrightarrow> unat (word_of_int k :: uint64) = nat k"
  by (simp add: unat_eq_nat_uint uint_word_of_int take_bit_int_eq_self)

lemma nth_twelve:
  "\<forall>n \<in> set ns. length n = 12 \<Longrightarrow> i < length ns
   \<Longrightarrow> take 12 (drop (i * 12) (concat ns)) = ns ! i"
proof (induction ns arbitrary: i)
  case Nil
  then show ?case by simp
next
  case (Cons n ns)
  show ?case
  proof (cases i)
    case 0
    then show ?thesis using Cons.prems by simp
  next
    case (Suc j)
    then have j: "j < length ns" using Cons.prems by simp
    have "\<forall>n \<in> set ns. length n = 12" using Cons.prems by simp
    from Cons.IH [OF this j] show ?thesis
      using Cons.prems by (simp add: Suc)
  qed
qed

lemma length_concat_twelve:
  "\<forall>n \<in> set ns. length n = 12 \<Longrightarrow> length (concat ns) = length ns * 12"
  by (induction ns) simp_all

lemma exampleBatch_eval:
  "fst (WAL_WriteAll exampleBatch)
     = Inr [\<lparr>SegmentId = 1, BlockNumber = 0, ChunkOffset = 10, ChunkSize = 8, ValueNum = 1\<rparr>,
            \<lparr>SegmentId = 1, BlockNumber = 0, ChunkOffset = 18, ChunkSize = 8, ValueNum = 2\<rparr>]"
  "contents (fd_nf (nonceFile (snd (WAL_WriteAll exampleBatch))))
     = exampleNonce @ exampleNonce @ exampleNonce"
  "pendingWrites exampleBatch = [[4], [5]]"
  "pendingNonceWrites exampleBatch = [exampleNonce, exampleNonce]"
  "contents (fd_nf (nonceFile exampleBatch)) = exampleNonce"
  "curNum (nonceFile exampleBatch) = 1"
  "capacity (fd_nf (nonceFile exampleBatch)) = 1000"
  by (simp_all add: exampleBatch_def WAL_WriteAll_def PendingWrites_def segment_writeAll_def
      ClearPendingWrites_def exampleWAL1_eq exampleWAL_def exampleNonce_def wal_eval)

lemma WAL_Write_nonce:
  assumes w: "WAL_Write wal data nonce = (Inr pos, wal')" and ne: "nonce \<noteq> []"
  shows "ValueNum pos = word_of_int (curNum (nonceFile wal))"
    and "contents (fd_nf (nonceFile wal')) = contents (fd_nf (nonceFile wal)) @ nonce"
    and "curNum (nonceFile wal') = curNum (nonceFile wal) + 1"
proof -
  from w obtain wal1 f position seg' f' nf' where
    r: "rotateIfFull wal (isFull wal (int (length data))) = (None, wal1)"
    and nw: "nonceFile_Write (nonceFile wal1) nonce position = (None, pos, nf')"
    and sy: "syncIfNeeded (putFile (wal1\<lparr>activeSegment := seg', nonceFile := nf'\<rparr>) (id_seg seg') f') pos
       = (Inr pos, wal')"
    by (rule WAL_Write_success)
  note rf = rotateIfFull_fields [OF r]
  note sf = syncIfNeeded_fields [OF sy]
  note nf = nonceFile_Write_fields(3) [OF nw ne]
  show "ValueNum pos = word_of_int (curNum (nonceFile wal))"
    using nf rf(2) by simp
  show "contents (fd_nf (nonceFile wal')) = contents (fd_nf (nonceFile wal)) @ nonce"
    using nf rf(3) sf(6) by (simp add: putFile_def)
  show "curNum (nonceFile wal') = curNum (nonceFile wal) + 1"
    using nf rf(2) sf(5) by (simp add: putFile_def)
qed

lemma WAL_Write_no_nonce:
  assumes w: "WAL_Write wal data [] = (Inr pos, wal')"
  shows "ValueNum pos = 0"
    and "contents (fd_nf (nonceFile wal')) = contents (fd_nf (nonceFile wal))"
    and "curNum (nonceFile wal') = curNum (nonceFile wal)"
proof -
  from w obtain wal1 f position seg' f' nf' where
    r: "rotateIfFull wal (isFull wal (int (length data))) = (None, wal1)"
    and sw: "segment_Write (activeSegment wal1) f data = (Inr position, seg', f')"
    and nw: "nonceFile_Write (nonceFile wal1) [] position = (None, pos, nf')"
    and sy: "syncIfNeeded (putFile (wal1\<lparr>activeSegment := seg', nonceFile := nf'\<rparr>) (id_seg seg') f') pos
       = (Inr pos, wal')"
    by (rule WAL_Write_success)
  note rf = rotateIfFull_fields [OF r]
  note sf = syncIfNeeded_fields [OF sy]
  have nf: "pos = position \<and> nf' = nonceFile wal1"
    by (rule nonceFile_Write_fields(2) [OF nw refl])
  show "ValueNum pos = 0"
    using nf segment_Write_ValueNum [OF sw] by simp
  show "contents (fd_nf (nonceFile wal')) = contents (fd_nf (nonceFile wal))"
    using nf rf(3) sf(6) by (simp add: putFile_def)
  show "curNum (nonceFile wal') = curNum (nonceFile wal)"
    using nf rf(2) sf(5) by (simp add: putFile_def)
qed

lemma WAL_WriteAll_nonces:
  assumes w: "WAL_WriteAll wal = (Inr ps, wal')" and ne: "pendingWrites wal \<noteq> []"
    and len: "length (pendingNonceWrites wal) = length (pendingWrites wal)"
    and cap: "length (contents (fd_nf (nonceFile wal))) + length (concat (pendingNonceWrites wal))
           \<le> capacity (fd_nf (nonceFile wal))"
  shows "length ps = length (pendingWrites wal)"
    and "i < length ps \<Longrightarrow> ValueNum (ps ! i) = word_of_int (curNum (nonceFile wal) + int i)"
    and "contents (fd_nf (nonceFile wal'))
           = contents (fd_nf (nonceFile wal)) @ concat (pendingNonceWrites wal)"
    and "curNum (nonceFile wal') = curNum (nonceFile wal) + int (length (pendingWrites wal))"
proof -
  from w ne obtain wal1 f positions seg' f' e nf' where
    r: "rotateIfFull wal (Size (activeSegment wal) + pendingSize wal > SegmentSize (options wal))
       = (None, wal1)"
    and sw: "segment_writeAll (activeSegment wal1) f (pendingWrites wal1) = (Inr positions, seg', f')"
    and nw: "nonceFile_writeAll (nonceFile wal1) (pendingNonceWrites wal1) positions = (e, ps, nf')"
    and w': "wal' = ClearPendingWrites (putFile (wal1\<lparr>activeSegment := seg', nonceFile := nf'\<rparr>)
                                   (id_seg seg') f')"
    by (rule WAL_WriteAll_success)
  note rf = rotateIfFull_fields [OF r]
  have lp: "length positions = length (pendingNonceWrites wal1)"
    using segment_writeAll_length [OF sw] rf(6,7) len by simp
  have cap1: "length (contents (fd_nf (nonceFile wal1))) + length (concat (pendingNonceWrites wal1))
           \<le> capacity (fd_nf (nonceFile wal1))"
    using cap rf(3,7,8) by simp
  from nonceFile_writeAll_fits [OF cap1 lp] nw
  have ps: "ps = stampFrom (curNum (nonceFile wal1)) positions"
    and nf': "nf' = (nonceFile wal1)\<lparr>fd_nf := (fd_nf (nonceFile wal1))
                 \<lparr>contents := contents (fd_nf (nonceFile wal1)) @ concat (pendingNonceWrites wal1)\<rparr>,
            curNum := curNum (nonceFile wal1) + int (length (pendingNonceWrites wal1))\<rparr>"
    by simp_all
  have nfw: "nonceFile wal' = nf'"
    by (simp add: w' ClearPendingWrites_def putFile_def)
  show "length ps = length (pendingWrites wal)"
    using lp rf(7) len by (simp add: ps)
  show "i < length ps \<Longrightarrow> ValueNum (ps ! i) = word_of_int (curNum (nonceFile wal) + int i)"
    using rf(2) by (simp add: ps stampFrom_nth)
  show "contents (fd_nf (nonceFile wal'))
           = contents (fd_nf (nonceFile wal)) @ concat (pendingNonceWrites wal)"
    using rf(3,7) by (simp add: nfw nf')
  show "curNum (nonceFile wal') = curNum (nonceFile wal) + int (length (pendingWrites wal))"
    using rf(2,7) len by (simp add: nfw nf')
qed

lemma slot_of_curNum:
  assumes link: "int (length c) = k * 12" and small: "length c < 2 ^ 62"
  shows "unat (word_of_int k :: uint64) * 12 = length c"
    and "0 \<le> k" and "k < 4611686018427387904"
proof -
  show k0: "0 \<le> k" using link by linarith
  have "int (length c) < 4611686018427387904" using small by simp
  then show k1: "k < 4611686018427387904" using link by linarith
  have "unat (word_of_int k :: uint64) = nat k"
    using k0 k1 by (intro unat64_of_int) auto
  moreover have "int (nat k * 12) = int (length c)" using k0 link by simp
  then have "nat k * 12 = length c" by (simp only: of_nat_eq_iff)
  ultimately show "unat (word_of_int k :: uint64) * 12 = length c" by simp
qed


lemma exampleWAL0_eq:
  "exampleWAL0 =
      (exampleWAL 1000)
        \<lparr>activeSegment := (activeSegment (exampleWAL 1000))\<lparr>currentBlockSize := 10\<rparr>,
         bytesWrite := 10,
         dir := \<lparr>files = [1 \<mapsto> \<lparr>contents = chunkHeader [1, 2, 3] ChunkTypeFull @ [1, 2, 3],
                                  synced = 0, capacity = 1000, syncFails = False\<rparr>],
                 readOnly = False, quota = 1000\<rparr>\<rparr>"
  by (simp add: exampleWAL0_def exampleWAL_write1)

lemma exampleWAL2_eq:
  "exampleWAL2 =
     \<lparr>activeSegment =
        \<lparr>id_seg = 2, currentBlockNumber = 0, currentBlockSize = 8, closed = False,
         startupBlock = \<lparr>block = replicate 32768 0, blockNumber_sb = - 1\<rparr>,
         isStartupTraversal = False\<rparr>,
      olderSegments =
        [(1, \<lparr>id_seg = 1, currentBlockNumber = 0, currentBlockSize = 10, closed = False,
              startupBlock = \<lparr>block = replicate 32768 0, blockNumber_sb = - 1\<rparr>,
              isStartupTraversal = False\<rparr>)],
      options = \<lparr>SegmentSize = 20, Sync = False, BytesPerSync = 0\<rparr>,
      bytesWrite = 8, pendingWrites = [], pendingNonceWrites = [], pendingSize = 0,
      nonceFile =
        \<lparr>fd_nf = \<lparr>contents = exampleNonce @ exampleNonce, synced = 12, capacity = 1000,
                  syncFails = False\<rparr>,
         curNum = 2, closed_nf = False\<rparr>,
      dir =
        \<lparr>files =
           [1 \<mapsto> \<lparr>contents = chunkHeader [1, 2, 3] ChunkTypeFull @ [1, 2, 3], synced = 10,
                   capacity = 1000, syncFails = False\<rparr>,
            2 \<mapsto> \<lparr>contents = chunkHeader [4] ChunkTypeFull @ [4], synced = 0,
                   capacity = 1000, syncFails = False\<rparr>],
         readOnly = False, quota = 1000\<rparr>\<rparr>"
  by (simp add: exampleWAL2_def exampleWAL1_eq exampleWAL_def exampleNonce_def wal_eval)

lemma readInternal_small:
  assumes nc: "\<not> closed seg" and ns: "\<not> isStartupTraversal seg"
    and sz: "Size seg = int (length (contents f))"
    and fr: "take (7 + length d) (drop c (contents f)) = chunkHeader d ChunkTypeFull @ d"
    and fit: "c + 14 + length d < 32768"
  shows "readInternal seg f pool 0 (int c) =
           Some (Inr (d, \<lparr>SegmentId = id_seg seg, BlockNumber = 0,
                          ChunkOffset = word_of_int (int c + 7 + int (length d)),
                          ChunkSize = 0, ValueNum = 0\<rparr>), seg)"
proof -
  define blk where "blk = (if length pool \<noteq> blockSize then replicate blockSize 0 else pool)"
  have lb: "length blk = 32768" by (auto simp add: blk_def blockSize_def)
  have fr0: "take (7 + length d) (drop (unat (0 :: uint32) * 32768 + c) (contents f))
               = chunkHeader d ChunkTypeFull @ d"
    using fr by simp
  have fit0: "c + 7 + length d \<le> 32768" using fit by simp
  have cache: "False \<longrightarrow> blockNumber_sb (startupBlock seg) \<noteq> uint (0 :: uint32)" by simp
  note r1 = read_one [OF lb fr0 fit0 cache]
  from r1(2) obtain blk1 where
    l: "loadBlock False f blk (blockNumber_sb (startupBlock seg)) 0
          (blockReadSize (int (length (contents f))) 0) (uint (0 :: uint32) * int blockSize)
        = (None, blk1, blockNumber_sb (startupBlock seg))"
    and p: "parseChunk blk1 (int c) = Inr (d, ChunkTypeFull, int c + 7 + int (length d))"
    by auto
  have nge: "\<not> blockReadSize (int (length (contents f))) 0 \<le> int c"
    using r1(1) by simp
  have na: "nextChunkAfter 0 (int c + 7 + int (length d)) = (0, int c + 7 + int (length d))"
    using fit by (simp add: nextChunkAfter_def chunkHeaderSize_def blockSize_def)
  have rc: "readChunks False (int (length (contents f))) f blk (blockNumber_sb (startupBlock seg))
              0 (int c) []
          = Some (Inr (d, 0, int c + 7 + int (length d)), blk1, blockNumber_sb (startupBlock seg))"
    apply (subst readChunks.simps)
    apply (simp only: nge if_False l prod.case option.case p sum.case if_True na simp_thms
             append_Nil)
    done
  show ?thesis
    unfolding readInternal_def sz
    using nc ns rc by (simp add: blk_def)
qed

lemma readInternal_eof:
  assumes nc: "\<not> closed seg" and ns: "\<not> isStartupTraversal seg"
    and e: "blockReadSize (Size seg) b \<le> c"
  shows "readInternal seg f pool b c = Some (Inl EOF, seg)"
  unfolding readInternal_def
  apply (subst readChunks.simps)
  using nc ns e apply simp
  done

lemma blockReadSize_small: "0 \<le> n \<Longrightarrow> n < 32768 \<Longrightarrow> blockReadSize n 0 = n"
  by (simp add: blockReadSize_def blockSize_def Let_def)

lemma exampleWAL0_next:
  "map_option fst (Reader_Next exampleWAL0 (NewReader exampleWAL0) []) = Some (Inl EOF)"
proof -
  let ?seg = "activeSegment exampleWAL0"
  let ?f = "\<lparr>contents = chunkHeader [1, 2, 3] ChunkTypeFull @ [1, 2, 3],
                                  synced = 0, capacity = 1000, syncFails = False\<rparr>"
  have ri: "readInternal ?seg ?f [] 0 0 =
           Some (Inr ([1, 2, 3], \<lparr>SegmentId = 1, BlockNumber = 0, ChunkOffset = 10,
                          ChunkSize = 0, ValueNum = 0\<rparr>), ?seg)"
    using readInternal_small [of ?seg ?f "[1, 2, 3]" 0 "[]"]
    by (simp add: exampleWAL0_eq exampleWAL_def Size_def blockSize_def)
  show ?thesis
    apply (subst Reader_Next.simps)
    using ri
    apply (simp add: exampleWAL0_eq exampleWAL_def NewReader_def NewReaderWithMax_def
        segment_NewReader_def findSegment_def segmentReader_Next_def readNonce_def
        fileReadAt_def newFile_def nonceSize_def)
    done
qed

lemma exampleWAL_next:
  "map_option fst (Reader_Next (exampleWAL 1000) (NewReader (exampleWAL 1000)) []) = Some (Inl EOF)"
proof -
  let ?seg = "activeSegment (exampleWAL 1000)"
  have ri: "readInternal ?seg (newFile 1000) [] 0 0 = Some (Inl EOF, ?seg)"
    by (rule readInternal_eof)
       (simp_all add: exampleWAL_def Size_def blockSize_def blockReadSize_def)
  show ?thesis
    apply (subst Reader_Next.simps)
    using ri
    apply (simp add: exampleWAL_def NewReader_def NewReaderWithMax_def
        segment_NewReader_def findSegment_def segmentReader_Next_def putSegment_def)
    apply (subst Reader_Next.simps)
    apply simp
    done
qed

lemma readNonce_short:
  assumes "0 \<le> sint (v * 12)"
    and "int (length (contents (fd_nf nf))) < sint (v * 12) + 12"
  shows "\<exists>n b. readNonce nf v = (n, Some EOF, b) \<and> n \<noteq> nonceSize"
  using assms by (auto simp add: readNonce_def fileReadAt_def nonceSize_def Let_def)

lemma readNonce_full:
  assumes "0 \<le> sint (v * 12)"
    and "sint (v * 12) + 12 \<le> int (length (contents (fd_nf nf)))"
  shows "readNonce nf v = (12, None, take 12 (drop (nat (sint (v * 12))) (contents (fd_nf nf))))"
  using assms by (auto simp add: readNonce_def fileReadAt_def nonceSize_def Let_def)

lemma exampleWAL0_segnext:
  "segmentReader_Next \<lparr>segment_sr = 1, blockNumber_sr = 0, chunkOffset_sr = 0\<rparr>
      (activeSegment exampleWAL0)
      \<lparr>contents = chunkHeader [1, 2, 3] ChunkTypeFull @ [1, 2, 3],
         synced = 0, capacity = 1000, syncFails = False\<rparr> []
    = Some (Inr ([1, 2, 3],
                 \<lparr>SegmentId = 1, BlockNumber = 0, ChunkOffset = 0, ChunkSize = 10, ValueNum = 0\<rparr>),
            \<lparr>segment_sr = 1, blockNumber_sr = 0, chunkOffset_sr = 10\<rparr>,
            activeSegment exampleWAL0)"
proof -
  let ?seg = "activeSegment exampleWAL0"
  let ?f = "\<lparr>contents = chunkHeader [1, 2, 3] ChunkTypeFull @ [1, 2, 3],
                                  synced = 0, capacity = 1000, syncFails = False\<rparr>"
  have ri: "readInternal ?seg ?f [] 0 0 =
           Some (Inr ([1, 2, 3], \<lparr>SegmentId = 1, BlockNumber = 0, ChunkOffset = 10,
                          ChunkSize = 0, ValueNum = 0\<rparr>), ?seg)"
    using readInternal_small [of ?seg ?f "[1, 2, 3]" 0 "[]"]
    by (simp add: exampleWAL0_eq exampleWAL_def Size_def blockSize_def)
  show ?thesis
    using ri by (simp add: segmentReader_Next_def exampleWAL0_eq exampleWAL_def blockSize_def)
qed

lemma exampleWAL0_read:
  "WAL_Read exampleWAL0 []
      \<lparr>SegmentId = 1, BlockNumber = 0, ChunkOffset = 0, ChunkSize = 10, ValueNum = 0\<rparr>
     = Some (Inl EOF, exampleWAL0)"
  by (simp add: WAL_Read_def findSegment_def readNonce_def fileReadAt_def nonceSize_def
      exampleWAL0_eq exampleWAL_def newFile_def)

lemma exampleWAL2_parts:
  "findSegment exampleWAL2 1
     = Some \<lparr>id_seg = 1, currentBlockNumber = 0, currentBlockSize = 10, closed = False,
              startupBlock = \<lparr>block = replicate 32768 0, blockNumber_sb = - 1\<rparr>,
              isStartupTraversal = False\<rparr>"
  "findSegment exampleWAL2 2 = Some (activeSegment exampleWAL2)"
  "files (dir exampleWAL2) 1
     = Some \<lparr>contents = chunkHeader [1, 2, 3] ChunkTypeFull @ [1, 2, 3], synced = 10,
                   capacity = 1000, syncFails = False\<rparr>"
  "files (dir exampleWAL2) 2
     = Some \<lparr>contents = chunkHeader [4] ChunkTypeFull @ [4], synced = 0,
                   capacity = 1000, syncFails = False\<rparr>"
  "nonceFile exampleWAL2
     = \<lparr>fd_nf = \<lparr>contents = exampleNonce @ exampleNonce, synced = 12, capacity = 1000,
                  syncFails = False\<rparr>, curNum = 2, closed_nf = False\<rparr>"
  "putSegment exampleWAL2 \<lparr>id_seg = 2, currentBlockNumber = 0, currentBlockSize = 8, closed = False,
         startupBlock = \<lparr>block = replicate 32768 0, blockNumber_sb = - 1\<rparr>,
         isStartupTraversal = False\<rparr> = exampleWAL2"
  "putSegment exampleWAL2 \<lparr>id_seg = 1, currentBlockNumber = 0, currentBlockSize = 10, closed = False,
              startupBlock = \<lparr>block = replicate 32768 0, blockNumber_sb = - 1\<rparr>,
              isStartupTraversal = False\<rparr> = exampleWAL2"
  "activeSegment exampleWAL2
     = \<lparr>id_seg = 2, currentBlockNumber = 0, currentBlockSize = 8, closed = False,
         startupBlock = \<lparr>block = replicate 32768 0, blockNumber_sb = - 1\<rparr>,
         isStartupTraversal = False\<rparr>"
  by (simp_all add: exampleWAL2_eq findSegment_def putSegment_def)

lemma exampleWAL2_seg1:
  "segmentReader_Next \<lparr>segment_sr = 1, blockNumber_sr = 0, chunkOffset_sr = 0\<rparr>
      \<lparr>id_seg = 1, currentBlockNumber = 0, currentBlockSize = 10, closed = False,
              startupBlock = \<lparr>block = replicate 32768 0, blockNumber_sb = - 1\<rparr>,
              isStartupTraversal = False\<rparr>
      \<lparr>contents = chunkHeader [1, 2, 3] ChunkTypeFull @ [1, 2, 3],
         synced = 10, capacity = 1000, syncFails = False\<rparr> []
    = Some (Inr ([1, 2, 3],
                 \<lparr>SegmentId = 1, BlockNumber = 0, ChunkOffset = 0, ChunkSize = 10, ValueNum = 0\<rparr>),
            \<lparr>segment_sr = 1, blockNumber_sr = 0, chunkOffset_sr = 10\<rparr>,
            \<lparr>id_seg = 1, currentBlockNumber = 0, currentBlockSize = 10, closed = False,
              startupBlock = \<lparr>block = replicate 32768 0, blockNumber_sb = - 1\<rparr>,
              isStartupTraversal = False\<rparr>)"
  using readInternal_small [of "\<lparr>id_seg = 1, currentBlockNumber = 0, currentBlockSize = 10, closed = False,
              startupBlock = \<lparr>block = replicate 32768 0, blockNumber_sb = - 1\<rparr>,
              isStartupTraversal = False\<rparr>" "\<lparr>contents = chunkHeader [1, 2, 3] ChunkTypeFull @ [1, 2, 3],
         synced = 10, capacity = 1000, syncFails = False\<rparr>" "[1, 2, 3]" 0 "[]"]
  by (simp add: segmentReader_Next_def Size_def blockSize_def)

lemma exampleWAL2_seg1_end:
  "segmentReader_Next \<lparr>segment_sr = 1, blockNumber_sr = 0, chunkOffset_sr = 10\<rparr>
      \<lparr>id_seg = 1, currentBlockNumber = 0, currentBlockSize = 10, closed = False,
              startupBlock = \<lparr>block = replicate 32768 0, blockNumber_sb = - 1\<rparr>,
              isStartupTraversal = False\<rparr> f []
    = Some (Inl EOF, \<lparr>segment_sr = 1, blockNumber_sr = 0, chunkOffset_sr = 10\<rparr>,
            \<lparr>id_seg = 1, currentBlockNumber = 0, currentBlockSize = 10, closed = False,
              startupBlock = \<lparr>block = replicate 32768 0, blockNumber_sb = - 1\<rparr>,
              isStartupTraversal = False\<rparr>)"
  using readInternal_eof [of "\<lparr>id_seg = 1, currentBlockNumber = 0, currentBlockSize = 10, closed = False,
              startupBlock = \<lparr>block = replicate 32768 0, blockNumber_sb = - 1\<rparr>,
              isStartupTraversal = False\<rparr>" 0 10 f "[]"]
  by (simp add: segmentReader_Next_def Size_def blockSize_def blockReadSize_def)

lemma exampleWAL2_seg2:
  "segmentReader_Next \<lparr>segment_sr = 2, blockNumber_sr = 0, chunkOffset_sr = 0\<rparr>
      \<lparr>id_seg = 2, currentBlockNumber = 0, currentBlockSize = 8, closed = False,
         startupBlock = \<lparr>block = replicate 32768 0, blockNumber_sb = - 1\<rparr>,
         isStartupTraversal = False\<rparr>
      \<lparr>contents = chunkHeader [4] ChunkTypeFull @ [4],
         synced = 0, capacity = 1000, syncFails = False\<rparr> []
    = Some (Inr ([4],
                 \<lparr>SegmentId = 2, BlockNumber = 0, ChunkOffset = 0, ChunkSize = 8, ValueNum = 0\<rparr>),
            \<lparr>segment_sr = 2, blockNumber_sr = 0, chunkOffset_sr = 8\<rparr>,
            \<lparr>id_seg = 2, currentBlockNumber = 0, currentBlockSize = 8, closed = False,
         startupBlock = \<lparr>block = replicate 32768 0, blockNumber_sb = - 1\<rparr>,
         isStartupTraversal = False\<rparr>)"
  using readInternal_small [of "\<lparr>id_seg = 2, currentBlockNumber = 0, currentBlockSize = 8, closed = False,
         startupBlock = \<lparr>block = replicate 32768 0, blockNumber_sb = - 1\<rparr>,
         isStartupTraversal = False\<rparr>" "\<lparr>contents = chunkHeader [4] ChunkTypeFull @ [4],
         synced = 0, capacity = 1000, syncFails = False\<rparr>" "[4]" 0 "[]"]
  by (simp add: segmentReader_Next_def Size_def blockSize_def)

lemma exampleWAL2_seg2_end:
  "segmentReader_Next \<lparr>segment_sr = 2, blockNumber_sr = 0, chunkOffset_sr = 8\<rparr>
      \<lparr>id_seg = 2, currentBlockNumber = 0, currentBlockSize = 8, closed = False,
         startupBlock = \<lparr>block = replicate 32768 0, blockNumber_sb = - 1\<rparr>,
         isStartupTraversal = False\<rparr> f []
    = Some (Inl EOF, \<lparr>segment_sr = 2, blockNumber_sr = 0, chunkOffset_sr = 8\<rparr>,
            \<lparr>id_seg = 2, currentBlockNumber = 0, currentBlockSize = 8, closed = False,
         startupBlock = \<lparr>block = replicate 32768 0, blockNumber_sb = - 1\<rparr>,
         isStartupTraversal = False\<rparr>)"
  using readInternal_eof [of "\<lparr>id_seg = 2, currentBlockNumber = 0, currentBlockSize = 8, closed = False,
         startupBlock = \<lparr>block = replicate 32768 0, blockNumber_sb = - 1\<rparr>,
         isStartupTraversal = False\<rparr>" 0 8 f "[]"]
  by (simp add: segmentReader_Next_def Size_def blockSize_def blockReadSize_def)

lemma exampleWAL2_nonces:
  "readNonce (nonceFile exampleWAL2) 0 = (12, None, exampleNonce)"
  "readNonce (nonceFile exampleWAL2) 1 = (12, None, exampleNonce)"
  "fst (readNonce (nonceFile exampleWAL2) 2) = 0"
  by (simp_all add: readNonce_def fileReadAt_def nonceSize_def exampleWAL2_parts
      exampleNonce_def)

lemma exampleWAL2_next1:
  "Reader_Next exampleWAL2
      \<lparr>segmentReaders = [\<lparr>segment_sr = 1, blockNumber_sr = 0, chunkOffset_sr = 0\<rparr>,
                         \<lparr>segment_sr = 2, blockNumber_sr = 0, chunkOffset_sr = 0\<rparr>],
        currentReader = 0, valueNum = 0\<rparr> []
     = Some (Inr ([1, 2, 3], exampleNonce,
                  \<lparr>SegmentId = 1, BlockNumber = 0, ChunkOffset = 0, ChunkSize = 10, ValueNum = 0\<rparr>),
             \<lparr>segmentReaders = [\<lparr>segment_sr = 1, blockNumber_sr = 0, chunkOffset_sr = 10\<rparr>,
                         \<lparr>segment_sr = 2, blockNumber_sr = 0, chunkOffset_sr = 0\<rparr>],
                currentReader = 0, valueNum = 1\<rparr>,
             exampleWAL2)"
  apply (subst Reader_Next.simps)
  apply (simp add: exampleWAL2_parts(1-4,6-8) exampleWAL2_seg1 exampleWAL2_nonces nonceSize_def)
  done

lemma exampleWAL2_next4:
  "Reader_Next exampleWAL2
      \<lparr>segmentReaders = [\<lparr>segment_sr = 1, blockNumber_sr = 0, chunkOffset_sr = 10\<rparr>,
                         \<lparr>segment_sr = 2, blockNumber_sr = 0, chunkOffset_sr = 8\<rparr>],
        currentReader = Suc (Suc 0), valueNum = 2\<rparr> []
     = Some (Inl EOF,
             \<lparr>segmentReaders = [\<lparr>segment_sr = 1, blockNumber_sr = 0, chunkOffset_sr = 10\<rparr>,
                         \<lparr>segment_sr = 2, blockNumber_sr = 0, chunkOffset_sr = 8\<rparr>],
                currentReader = Suc (Suc 0), valueNum = 2\<rparr>,
             exampleWAL2)"
  by (subst Reader_Next.simps) simp

lemma exampleWAL2_next3:
  "Reader_Next exampleWAL2
      \<lparr>segmentReaders = [\<lparr>segment_sr = 1, blockNumber_sr = 0, chunkOffset_sr = 10\<rparr>,
                         \<lparr>segment_sr = 2, blockNumber_sr = 0, chunkOffset_sr = 8\<rparr>],
        currentReader = Suc 0, valueNum = 2\<rparr> []
     = Some (Inl EOF,
             \<lparr>segmentReaders = [\<lparr>segment_sr = 1, blockNumber_sr = 0, chunkOffset_sr = 10\<rparr>,
                         \<lparr>segment_sr = 2, blockNumber_sr = 0, chunkOffset_sr = 8\<rparr>],
                currentReader = Suc (Suc 0), valueNum = 2\<rparr>,
             exampleWAL2)"
  apply (subst Reader_Next.simps)
  apply (simp add: exampleWAL2_parts(1-4,6-8) exampleWAL2_seg2_end exampleWAL2_next4)
  done

lemma exampleWAL2_next2b:
  "Reader_Next exampleWAL2
      \<lparr>segmentReaders = [\<lparr>segment_sr = 1, blockNumber_sr = 0, chunkOffset_sr = 10\<rparr>,
                         \<lparr>segment_sr = 2, blockNumber_sr = 0, chunkOffset_sr = 0\<rparr>],
        currentReader = Suc 0, valueNum = 1\<rparr> []
     = Some (Inr ([4], exampleNonce,
                  \<lparr>SegmentId = 2, BlockNumber = 0, ChunkOffset = 0, ChunkSize = 8, ValueNum = 1\<rparr>),
             \<lparr>segmentReaders = [\<lparr>segment_sr = 1, blockNumber_sr = 0, chunkOffset_sr = 10\<rparr>,
                         \<lparr>segment_sr = 2, blockNumber_sr = 0, chunkOffset_sr = 8\<rparr>],
                currentReader = Suc 0, valueNum = 2\<rparr>,
             exampleWAL2)"
  apply (subst Reader_Next.simps)
  apply (simp add: exampleWAL2_parts(1-4,6-8) exampleWAL2_seg2 exampleWAL2_nonces nonceSize_def)
  done

lemma exampleWAL2_next2:
  "Reader_Next exampleWAL2
      \<lparr>segmentReaders = [\<lparr>segment_sr = 1, blockNumber_sr = 0, chunkOffset_sr = 10\<rparr>,
                         \<lparr>segment_sr = 2, blockNumber_sr = 0, chunkOffset_sr = 0\<rparr>],
        currentReader = 0, valueNum = 1\<rparr> []
     = Some (Inr ([4], exampleNonce,
                  \<lparr>SegmentId = 2, BlockNumber = 0, ChunkOffset = 0, ChunkSize = 8, ValueNum = 1\<rparr>),
             \<lparr>segmentReaders = [\<lparr>segment_sr = 1, blockNumber_sr = 0, chunkOffset_sr = 10\<rparr>,
                         \<lparr>segment_sr = 2, blockNumber_sr = 0, chunkOffset_sr = 8\<rparr>],
                currentReader = Suc 0, valueNum = 2\<rparr>,
             exampleWAL2)"
  apply (subst Reader_Next.simps)
  apply (simp add: exampleWAL2_parts(1-4,6-8) exampleWAL2_seg1_end exampleWAL2_next2b)
  done

lemma exampleWAL2_NewReader:
  "NewReader exampleWAL2
     = \<lparr>segmentReaders = [\<lparr>segment_sr = 1, blockNumber_sr = 0, chunkOffset_sr = 0\<rparr>,
                         \<lparr>segment_sr = 2, blockNumber_sr = 0, chunkOffset_sr = 0\<rparr>],
        currentReader = 0, valueNum = 0\<rparr>"
  by (simp add: NewReader_def NewReaderWithMax_def segment_NewReader_def exampleWAL2_eq)

lemma exampleWAL2_read2:
  "WAL_Read exampleWAL2 []
      \<lparr>SegmentId = 2, BlockNumber = 0, ChunkOffset = 0, ChunkSize = 8, ValueNum = 1\<rparr>
     = Some (Inr ([4], exampleNonce), exampleWAL2)"
  using readInternal_small [of "\<lparr>id_seg = 2, currentBlockNumber = 0, currentBlockSize = 8, closed = False,
         startupBlock = \<lparr>block = replicate 32768 0, blockNumber_sb = - 1\<rparr>,
         isStartupTraversal = False\<rparr>" "\<lparr>contents = chunkHeader [4] ChunkTypeFull @ [4],
         synced = 0, capacity = 1000, syncFails = False\<rparr>" "[4]" 0 "[]"]
  by (simp add: WAL_Read_def segment_Read_def exampleWAL2_parts(2,4,6,8) exampleWAL2_nonces
      nonceSize_def Size_def blockSize_def)


lemma splitRest_fit:
  "pos mod 32768 = 0
   \<Longrightarrow> (off, ch) \<in> set (zip (chunkOffsets pos (splitRest xs)) (splitRest xs))
   \<Longrightarrow> off = 0 \<and> length (snd ch) \<le> 32761"
proof (induction xs arbitrary: pos rule: splitRest.induct)
  case (1 xs)
  show ?case
  proof (cases "length xs \<le> blockSize - chunkHeaderSize")
    case True
    then have eq: "splitRest xs = [(ChunkTypeLast, xs)]"
      by (subst splitRest.simps) simp
    from "1.prems" True show ?thesis
      unfolding eq by (simp add: blockSize_def chunkHeaderSize_def)
  next
    case False
    then have eq: "splitRest xs = (ChunkTypeMiddle, take (blockSize - chunkHeaderSize) xs)
             # splitRest (drop (blockSize - chunkHeaderSize) xs)"
      by (subst splitRest.simps) simp
    have lt: "length (take (blockSize - chunkHeaderSize) xs) = 32761"
      using False by (simp add: blockSize_def chunkHeaderSize_def)
    have nxt: "(pos + chunkHeaderSize + 32761) mod 32768 = 0"
      using "1.prems"(1) by (simp add: chunkHeaderSize_def mod_simps)
    from "1.prems"(2) have "(off, ch) = (pos mod blockSize, ChunkTypeMiddle, take (blockSize - chunkHeaderSize) xs)
        \<or> (off, ch) \<in> set (zip (chunkOffsets (pos + chunkHeaderSize + 32761)
                                   (splitRest (drop (blockSize - chunkHeaderSize) xs)))
                                (splitRest (drop (blockSize - chunkHeaderSize) xs)))"
      unfolding eq
      by (simp only: chunkOffsets.simps zip_Cons_Cons list.set insert_iff snd_conv lt)
    then have "(off = 0 \<and> ch = (ChunkTypeMiddle, take (blockSize - chunkHeaderSize) xs))
        \<or> (off, ch) \<in> set (zip (chunkOffsets (pos + chunkHeaderSize + 32761)
                                   (splitRest (drop (blockSize - chunkHeaderSize) xs)))
                                (splitRest (drop (blockSize - chunkHeaderSize) xs)))"
      using "1.prems"(1) by (auto simp add: blockSize_def)
    then show ?thesis
    proof
      assume "off = 0 \<and> ch = (ChunkTypeMiddle, take (blockSize - chunkHeaderSize) xs)"
      then show ?thesis using lt by simp
    next
      assume "(off, ch) \<in> set (zip (chunkOffsets (pos + chunkHeaderSize + 32761)
                                   (splitRest (drop (blockSize - chunkHeaderSize) xs)))
                                (splitRest (drop (blockSize - chunkHeaderSize) xs)))"
      from "1.IH" [OF False nxt this] show ?thesis .
    qed
  qed
qed

lemma recordChunks_fit:
  assumes c0: "c0 \<le> 32760" and pos: "pos mod 32768 = c0"
    and m: "(off, ch) \<in> set (zip (chunkOffsets pos (recordChunks c0 data)) (recordChunks c0 data))"
  shows "off + 7 \<le> 32768 \<and> off + 7 + length (snd ch) \<le> 32768"
proof (cases "c0 + chunkHeaderSize + length data \<le> blockSize")
  case True
  then have eq: "recordChunks c0 data = [(ChunkTypeFull, data)]"
    by (simp add: recordChunks_def)
  from m True pos c0 show ?thesis
    unfolding eq by (simp add: blockSize_def chunkHeaderSize_def)
next
  case False
  let ?k = "blockSize - c0 - chunkHeaderSize"
  have eq: "recordChunks c0 data = (ChunkTypeFirst, take ?k data) # splitRest (drop ?k data)"
    using False by (simp add: recordChunks_def)
  have lt: "length (take ?k data) = 32761 - c0"
    using False c0 by (simp add: blockSize_def chunkHeaderSize_def)
  have "pos = pos div 32768 * 32768 + c0"
    using pos by (metis div_mult_mod_eq)
  then have "pos + chunkHeaderSize + (32761 - c0) = (pos div 32768 + 1) * 32768"
    using c0 by (simp add: chunkHeaderSize_def)
  then have nxt: "(pos + chunkHeaderSize + (32761 - c0)) mod 32768 = 0"
    by simp
  from m have "(off, ch) = (pos mod blockSize, ChunkTypeFirst, take ?k data)
        \<or> (off, ch) \<in> set (zip (chunkOffsets (pos + chunkHeaderSize + (32761 - c0))
                                   (splitRest (drop ?k data)))
                                (splitRest (drop ?k data)))"
    unfolding eq
    by (simp only: chunkOffsets.simps zip_Cons_Cons list.set insert_iff snd_conv lt)
  then have "(off = c0 \<and> ch = (ChunkTypeFirst, take ?k data))
        \<or> (off, ch) \<in> set (zip (chunkOffsets (pos + chunkHeaderSize + (32761 - c0))
                                   (splitRest (drop ?k data)))
                                (splitRest (drop ?k data)))"
    using pos by (auto simp add: blockSize_def)
  then show ?thesis
  proof
    assume "off = c0 \<and> ch = (ChunkTypeFirst, take ?k data)"
    then show ?thesis using lt c0 by simp
  next
    assume "(off, ch) \<in> set (zip (chunkOffsets (pos + chunkHeaderSize + (32761 - c0))
                                   (splitRest (drop ?k data)))
                                (splitRest (drop ?k data)))"
    from splitRest_fit [OF nxt this] show ?thesis by simp
  qed
qed

lemma first_chunk_offset:
  assumes c: "c < 32768"
  shows "(b * 32768 + c + padLen c) mod 32768 = startOffset c"
proof (cases "32768 \<le> c + 7")
  case True
  then have e: "b * 32768 + c + padLen c = (b + 1) * 32768"
    using c by (simp add: padLen_def blockSize_def chunkHeaderSize_def)
  show ?thesis unfolding e using True
    by (simp add: startOffset_def blockSize_def chunkHeaderSize_def)
next
  case False
  then show ?thesis using c
    by (simp add: startOffset_def padLen_def blockSize_def chunkHeaderSize_def)
qed

lemma recordChunks_bound:
  assumes "length data \<le> 4293918720"
  shows "length (recordChunks c data) * 7 + length data < 4294967296"
proof -
  have "length (recordChunks c data) \<le> length data div 32761 + 2"
    by (rule length_recordChunks)
  moreover have "length data div 32761 \<le> 4293918720 div 32761"
    using assms by (rule div_le_mono)
  ultimately show ?thesis using assms by simp
qed






lemma length_recordBytes:
  "length (recordBytes c d) = padLen c + (length (recordChunks (startOffset c) d) * 7 + length d)"
  by (simp add: recordBytes_def length_frames_recordChunks)

lemma padLen_le: "padLen c \<le> 32768"
  by (simp add: padLen_def blockSize_def)

lemma cursor_mod:
  assumes "c < (32768 :: nat)"
  shows "(b * 32768 + c) mod 32768 = c"
  using assms by simp

lemma writeToBuffer_cursor:
  assumes nc: "\<not> closed seg"
    and cb: "currentBlockSize seg < 32768"
    and small: "length d \<le> 4293918720"
    and bound: "unat (currentBlockNumber seg) * 32768 + unat (currentBlockSize seg)
                  + length (recordBytes (unat (currentBlockSize seg)) d) + 32768
                \<le> 4294967296 * 32768"
  shows "\<exists>p seg2. writeToBuffer seg d buf
                     = (Inr p, seg2, buf @ recordBytes (unat (currentBlockSize seg)) d)
           \<and> \<not> closed seg2 \<and> currentBlockSize seg2 < 32768
           \<and> unat (currentBlockNumber seg2) * 32768 + unat (currentBlockSize seg2)
               = unat (currentBlockNumber seg) * 32768 + unat (currentBlockSize seg)
                 + length (recordBytes (unat (currentBlockSize seg)) d)"
proof -
  let ?c = "unat (currentBlockSize seg)"
  let ?pos = "unat (currentBlockNumber seg) * 32768 + ?c"
  let ?N = "length (recordChunks (startOffset ?c) d)"
  let ?f = "\<lparr>contents = replicate ?pos (0 :: byte), synced = 0, capacity = 0, syncFails = False\<rparr>"
  let ?seg1 = "if 32768 \<le> ?c + 7
       then seg\<lparr>currentBlockNumber := currentBlockNumber seg + 1, currentBlockSize := 0\<rparr>
       else seg"
  have L': "length d + 32768 \<le> 4294967296" using small by simp
  have inv: "Size seg = int (length (contents ?f))"
    unfolding Size_nat by simp
  have "?N \<le> length d div 32761 + 2" by (rule length_recordChunks)
  moreover have "length d div 32761 \<le> 4293918720 div 32761"
    using small by (rule div_le_mono)
  ultimately have sm: "?N * 7 + length d + 32768 \<le> 4294967296"
    using small by simp
  have bd: "length (contents ?f) + 7 + (?N * 7 + length d) < 4294967296 * 32768"
    using bound by (simp add: length_recordBytes)
  note cn = segment_Write_counters [OF cb inv sm bd]
  from cn(3) have "int (unat (currentBlockNumber (advanceBlock ?seg1 (of_nat (?N * 7 + length d)))) * 32768
          + unat (currentBlockSize (advanceBlock ?seg1 (of_nat (?N * 7 + length d)))))
        = int (?pos + padLen ?c + (?N * 7 + length d))"
    unfolding Size_nat by simp
  then have pos2: "unat (currentBlockNumber (advanceBlock ?seg1 (of_nat (?N * 7 + length d)))) * 32768
          + unat (currentBlockSize (advanceBlock ?seg1 (of_nat (?N * 7 + length d))))
        = ?pos + padLen ?c + (?N * 7 + length d)"
    by (simp only: of_nat_eq_iff)
  have cl: "\<not> closed (advanceBlock ?seg1 (of_nat (?N * 7 + length d)))"
    using nc by (simp add: advanceBlock_def Let_def)
  let ?P = "\<lparr>SegmentId = id_seg seg,
           BlockNumber = (if 32768 \<le> ?c + 7
                          then currentBlockNumber seg + 1 else currentBlockNumber seg),
           ChunkOffset = of_nat (startOffset ?c),
           ChunkSize = of_nat (?N * 7 + length d),
           ValueNum = 0\<rparr>"
  let ?S2 = "advanceBlock ?seg1 (of_nat (?N * 7 + length d))"
  have eq: "writeToBuffer seg d buf = (Inr ?P, ?S2, buf @ recordBytes ?c d)"
    by (simp only: writeToBuffer_eq [OF nc cb L'] recordBytes_def)
  have pos3: "unat (currentBlockNumber ?S2) * 32768 + unat (currentBlockSize ?S2)
               = ?pos + length (recordBytes ?c d)"
    by (simp only: pos2 length_recordBytes add.assoc)
  from eq cl cn(4) pos3 show ?thesis by blast
qed

lemma writeAllToBuffer_layout:
  assumes "\<not> closed seg" and "currentBlockSize seg < 32768"
    and "\<forall>d \<in> set ds. length d \<le> 4293918720"
    and "pos = unat (currentBlockNumber seg) * 32768 + unat (currentBlockSize seg)"
    and "pos + length (batchBytes pos ds) + 32768 \<le> 4294967296 * 32768"
  shows "\<exists>ps seg'. writeAllToBuffer seg ds buf = (Inr ps, seg', buf @ batchBytes pos ds)"
  using assms
proof (induction ds arbitrary: seg buf pos)
  case Nil
  then show ?case by simp
next
  case (Cons d ds)
  let ?c = "unat (currentBlockSize seg)"
  have c: "?c < 32768" using Cons.prems(2) by (simp add: word_less_nat_alt)
  have pm: "pos mod blockSize = ?c"
    unfolding Cons.prems(4) blockSize_def using c by (rule cursor_mod)
  have small: "length d \<le> 4293918720" using Cons.prems(3) by simp
  have bb: "batchBytes pos (d # ds)
      = recordBytes ?c d @ batchBytes (pos + length (recordBytes ?c d)) ds"
    by (simp add: pm)
  have b1: "pos + length (recordBytes ?c d) + 32768 \<le> 4294967296 * 32768"
    using Cons.prems(5) unfolding bb by simp
  have bound: "unat (currentBlockNumber seg) * 32768 + ?c + length (recordBytes ?c d) + 32768
                \<le> 4294967296 * 32768"
    using b1 unfolding Cons.prems(4) .
  from writeToBuffer_cursor [OF Cons.prems(1,2) small bound, of buf]
  obtain p seg2 where w: "writeToBuffer seg d buf = (Inr p, seg2, buf @ recordBytes ?c d)"
    and nc2: "\<not> closed seg2" and cb2: "currentBlockSize seg2 < 32768"
    and pos2: "unat (currentBlockNumber seg2) * 32768 + unat (currentBlockSize seg2)
               = unat (currentBlockNumber seg) * 32768 + ?c + length (recordBytes ?c d)"
    by blast
  have rest: "\<forall>d \<in> set ds. length d \<le> 4293918720" using Cons.prems(3) by simp
  have p2: "pos + length (recordBytes ?c d)
      = unat (currentBlockNumber seg2) * 32768 + unat (currentBlockSize seg2)"
    unfolding pos2 Cons.prems(4) ..
  have b2: "pos + length (recordBytes ?c d)
             + length (batchBytes (pos + length (recordBytes ?c d)) ds) + 32768
           \<le> 4294967296 * 32768"
    using Cons.prems(5) unfolding bb by simp
  from Cons.IH [OF nc2 cb2 rest p2 b2, of "buf @ recordBytes ?c d"]
  obtain ps seg' where
    r: "writeAllToBuffer seg2 ds (buf @ recordBytes ?c d)
          = (Inr ps, seg', (buf @ recordBytes ?c d) @ batchBytes (pos + length (recordBytes ?c d)) ds)"
    by blast
  show ?case
    by (simp add: w r bb del: batchBytes.simps)
qed

lemma batchChunks_fit:
  "(off, ch) \<in> set (batchChunks pos ds)
   \<Longrightarrow> off + 7 \<le> 32768 \<and> off + 7 + length (snd ch) \<le> 32768"
proof (induction ds arbitrary: pos)
  case Nil
  then show ?case by simp
next
  case (Cons d ds)
  let ?c = "pos mod blockSize"
  have c: "?c < 32768" by (simp add: blockSize_def)
  have s: "startOffset ?c \<le> 32760" using c by (rule startOffset_le)
  have "pos = pos div 32768 * 32768 + ?c" by (simp add: blockSize_def)
  then have "(pos + padLen ?c) mod 32768 = (pos div 32768 * 32768 + ?c + padLen ?c) mod 32768"
    by simp
  also have "\<dots> = startOffset ?c" using c by (rule first_chunk_offset)
  finally have p: "(pos + padLen ?c) mod 32768 = startOffset ?c" .
  from Cons.prems have "(off, ch) \<in> set (zip (chunkOffsets (pos + padLen ?c)
                                            (recordChunks (startOffset ?c) d))
                                         (recordChunks (startOffset ?c) d))
      \<or> (off, ch) \<in> set (batchChunks (pos + length (recordBytes ?c d)) ds)"
    by simp
  then show ?case
  proof
    assume "(off, ch) \<in> set (zip (chunkOffsets (pos + padLen ?c)
                                            (recordChunks (startOffset ?c) d))
                                         (recordChunks (startOffset ?c) d))"
    from recordChunks_fit [OF s p this] show ?thesis .
  next
    assume "(off, ch) \<in> set (batchChunks (pos + length (recordBytes ?c d)) ds)"
    from Cons.IH [OF this] show ?thesis .
  qed
qed

lemma segment_writeAll_layout:
  assumes cb: "currentBlockSize seg < 32768"
    and sz: "Size seg = int (length (contents f))"
    and small: "\<forall>d \<in> set ds. length d \<le> 4293918720"
    and bound: "length (contents f) + length (batchBytes (length (contents f)) ds) + 32768
                  \<le> 4294967296 * 32768"
    and w: "segment_writeAll seg f ds = (Inr ps, seg', f')"
  shows "contents f' = contents f @ batchBytes (length (contents f)) ds"
proof -
  have nc: "\<not> closed seg" using w by (auto simp add: segment_writeAll_def)
  from sz [unfolded Size_nat]
  have "int (unat (currentBlockNumber seg) * 32768 + unat (currentBlockSize seg))
          = int (length (contents f))" .
  then have pos: "length (contents f)
      = unat (currentBlockNumber seg) * 32768 + unat (currentBlockSize seg)"
    by (simp only: of_nat_eq_iff)
  from writeAllToBuffer_layout [OF nc cb small pos bound, of "[]"]
  obtain qs seg1 where
    r: "writeAllToBuffer seg ds [] = (Inr qs, seg1, batchBytes (length (contents f)) ds)"
    by auto
  show ?thesis
    using w nc unfolding segment_writeAll_def r
    by (auto simp add: writeChunkBuffer_def fileWrite_def split: if_splits)
qed

lemma batch_single:
  assumes "c < 32768" and "pos = b * 32768 + c"
  shows "batchBytes pos [d] = recordBytes c d"
    and "batchChunks pos [d]
           = zip (chunkOffsets (pos + padLen c) (recordChunks (startOffset c) d))
                 (recordChunks (startOffset c) d)"
  using assms by (simp_all add: blockSize_def)

lemma rotateIfFull_wf:
  assumes wf: "wfWAL wal" and r: "rotateIfFull wal full = (None, wal1)"
    and fl: "files (dir wal1) (id_seg (activeSegment wal1)) = Some f"
  shows "currentBlockSize (activeSegment wal1) < 32768"
    and "Size (activeSegment wal1) = int (length (contents f))"
    and "length (block (startupBlock (activeSegment wal1))) = 32768"
    and "full \<Longrightarrow> contents f = []"
    and "\<not> full \<Longrightarrow> wal1 = wal"
proof -
  have all: "currentBlockSize (activeSegment wal1) < 32768
      \<and> Size (activeSegment wal1) = int (length (contents f))
      \<and> length (block (startupBlock (activeSegment wal1))) = 32768
      \<and> (full \<longrightarrow> contents f = []) \<and> (\<not> full \<longrightarrow> wal1 = wal)"
  proof (cases full)
    case True
    then have ro: "rotateActiveSegment wal = (None, wal1)"
      using r by (simp add: rotateIfFull_def)
    have nxt: "files (dir wal) (id_seg (activeSegment wal) + 1) = None"
      using wf by (simp add: wfWAL_def)
    note g = rotate_fields [OF ro nxt]
    have f: "f = newFile (quota (dir wal))"
      using fl g(6) by (simp add: g(1))
    show ?thesis
      using True by (simp add: g(1) f Size_def newFile_def blockSize_def)
  next
    case False
    then have w: "wal1 = wal" using r by (simp add: rotateIfFull_def)
    show ?thesis
      using wf fl False unfolding w
      by (simp add: wfWAL_def wfActive_def blockSize_def)
  qed
  show "currentBlockSize (activeSegment wal1) < 32768"
    and "Size (activeSegment wal1) = int (length (contents f))"
    and "length (block (startupBlock (activeSegment wal1))) = 32768"
    and "full \<Longrightarrow> contents f = []"
    and "\<not> full \<Longrightarrow> wal1 = wal"
    using all by simp_all
qed

lemma readNonce_appended:
  assumes len: "int (length (contents (fd_nf nf))) = k * 12"
    and small: "length (contents (fd_nf nf)) < 2 ^ 62"
    and c: "contents (fd_nf nf') = contents (fd_nf nf) @ nonce"
    and n: "length nonce = 12"
  shows "readNonce nf' (word_of_int k) = (12, None, nonce)"
proof -
  note sl = slot_of_curNum [OF len small]
  have "int (length (contents (fd_nf nf))) < 4611686018427387904" using small by simp
  then have "k * 12 < 9223372036854775808" using len by linarith
  then have k1: "k * 12 < 2 ^ 63" by simp
  have k0: "0 \<le> k * 12" using sl(2) by simp
  have "(word_of_int k * 12 :: uint64) = word_of_int (k * 12)" by simp
  then have s: "sint (word_of_int k * 12 :: uint64) = k * 12"
    using sint64_of_int [OF k0 k1] by simp
  have nk: "nat (k * 12) = length (contents (fd_nf nf))"
    using len by simp
  show ?thesis
    using sl(2) n by (simp add: readNonce_def fileReadAt_def nonceSize_def Let_def s nk c)
qed

lemma maxDataWriteSize_nonneg: "0 \<le> n \<Longrightarrow> 0 \<le> maxDataWriteSize n"
  by (simp add: maxDataWriteSize_def chunkHeaderSize_def blockSize_def pos_imp_zdiv_nonneg_iff)


































section \<open>The fixed-size position encoding\<close>

text \<open>
  C5. The claim: \<^verbatim>\<open>EncodeFixedSize\<close> returns a buffer of five maximal varints, every position
  fits, and encoding never fails. In the code the buffer has \<^verbatim>\<open>maxLen\<close> bytes, which is three
  32-bit varints and one 64-bit varint (25 bytes, the four fields named in the comment on
  \<^verbatim>\<open>maxLen\<close>), while \<^verbatim>\<open>encode\<close> writes five fields, two of them 64 bits wide. The position whose
  fields are all ones needs 35 bytes: the fifth varint runs past the end of the buffer and
  \<^verbatim>\<open>PutUvarint\<close> panics.
\<close>

theorem EncodeFixedSize_overflows_maxLen:
  "maxLen = 25 \<and>
   EncodeFixedSize \<lparr>SegmentId = 0xFFFFFFFF, BlockNumber = 0xFFFFFFFF,
                    ChunkOffset = 0xFFFFFFFFFFFFFFFF, ChunkSize = 0xFFFFFFFF,
                    ValueNum = 0xFFFFFFFFFFFFFFFF\<rparr> = Inl Panic"
  by (simp add: EncodeFixedSize_def encode_def putField_def PutUvarint_def bindE_def
      maxLen_def MaxVarintLen32_def MaxVarintLen64_def)

text \<open>
  C8. \<^verbatim>\<open>WAL.Write\<close> rotates exactly when
  \<open>active.size + (7 + L + (L / 32 KiB + 1) * 7) > segment_size\<close>. On rotation the active segment
  and the nonce file are synced (unless closed), a segment with the next id becomes active,
  and the previous active segment is in the older-segments map. Stated for a write that
  succeeds: the rotation is the one \<^verbatim>\<open>rotateActiveSegment\<close> computes, and the write leaves its
  active id and older segments as they are.
\<close>

theorem WAL_Write_rotation:
  assumes w: "WAL_Write wal data nonce = (Inr pos, wal')"
  shows "if Size (activeSegment wal)
              + (7 + int (length data) + (int (length data) div 32768 + 1) * 7)
            > SegmentSize (options wal)
         then fst (rotateActiveSegment wal) = None
            \<and> id_seg (activeSegment (snd (rotateActiveSegment wal))) = id_seg (activeSegment wal) + 1
            \<and> map_of (olderSegments (snd (rotateActiveSegment wal))) (id_seg (activeSegment wal))
                = Some (activeSegment wal)
            \<and> (closed (activeSegment wal)
                \<or> (case files (dir wal) (id_seg (activeSegment wal)) of
                      None \<Rightarrow> True
                    | Some f \<Rightarrow>
                        files (dir (snd (rotateActiveSegment wal))) (id_seg (activeSegment wal))
                          = Some (f\<lparr>synced := length (contents f)\<rparr>)))
            \<and> (closed_nf (nonceFile wal)
                \<or> synced (fd_nf (nonceFile (snd (rotateActiveSegment wal))))
                    = length (contents (fd_nf (nonceFile wal))))
            \<and> id_seg (activeSegment wal') = id_seg (activeSegment wal) + 1
            \<and> olderSegments wal' = olderSegments (snd (rotateActiveSegment wal))
            \<and> SegmentId pos = id_seg (activeSegment wal) + 1
         else id_seg (activeSegment wal') = id_seg (activeSegment wal)
            \<and> olderSegments wal' = olderSegments wal
            \<and> SegmentId pos = id_seg (activeSegment wal)"
proof -
  from w obtain wal1 f position seg' f' nf' where
    r: "rotateIfFull wal (isFull wal (int (length data))) = (None, wal1)"
    and sw: "segment_Write (activeSegment wal1) f data = (Inr position, seg', f')"
    and nw: "nonceFile_Write (nonceFile wal1) nonce position = (None, pos, nf')"
    and sy: "syncIfNeeded (putFile (wal1\<lparr>activeSegment := seg', nonceFile := nf'\<rparr>) (id_seg seg') f') pos
       = (Inr pos, wal')"
    by (rule WAL_Write_success)
  note rf = rotateIfFull_fields [OF r]
  note sf = syncIfNeeded_fields [OF sy]
  note si = segment_Write_id [OF sw]
  have full: "isFull wal (int (length data)) =
      (Size (activeSegment wal) + (7 + int (length data) + (int (length data) div 32768 + 1) * 7)
         > SegmentSize (options wal))"
    by (simp add: isFull_def maxDataWriteSize_def chunkHeaderSize_def blockSize_def)
  have a': "id_seg (activeSegment wal') = id_seg (activeSegment wal1)"
    using sf(2) si(2) by (simp add: putFile_def)
  have o': "olderSegments wal' = olderSegments wal1"
    using sf(3) by (simp add: putFile_def)
  have p': "SegmentId pos = id_seg (activeSegment wal1)"
    using nonceFile_Write_fields(1) [OF nw] si(1) by simp
  show ?thesis
  proof (cases "isFull wal (int (length data))")
    case True
    then have ro: "rotateActiveSegment wal = (None, wal1)"
      using r by (simp add: rotateIfFull_def)
    note g = rotate_general [OF ro]
    have m: "map_of (olderSegments wal1) (id_seg (activeSegment wal)) = Some (activeSegment wal)"
      by (simp add: g(2) update_conv')
    have sfile: "closed (activeSegment wal)
                \<or> (case files (dir wal) (id_seg (activeSegment wal)) of
                      None \<Rightarrow> True
                    | Some f \<Rightarrow> files (dir wal1) (id_seg (activeSegment wal))
                          = Some (f\<lparr>synced := length (contents f)\<rparr>))"
      using g(7) by (auto split: option.splits)
    have snon: "closed_nf (nonceFile wal)
                \<or> synced (fd_nf (nonceFile wal1)) = length (contents (fd_nf (nonceFile wal)))"
      using g(6) by auto
    have fr: "fst (rotateActiveSegment wal) = None" by (simp add: ro)
    have w1: "wal1 = snd (rotateActiveSegment wal)" by (simp add: ro)
    show ?thesis
      using True m sfile snon a' o' p' rf(4) unfolding full [symmetric] w1
      by (simp add: fr)
  next
    case False
    then show ?thesis
      using a' o' p' rf(4,5) unfolding full [symmetric] by simp
  qed
qed

theorem WAL_Write_rotation_witness:
  "fst (WAL_Write exampleWAL1 [4] exampleNonce)
     = Inr \<lparr>SegmentId = 2, BlockNumber = 0, ChunkOffset = 0, ChunkSize = 8, ValueNum = 1\<rparr>
   \<and> id_seg (activeSegment (snd (WAL_Write exampleWAL1 [4] exampleNonce))) = 2
   \<and> map_of (olderSegments (snd (WAL_Write exampleWAL1 [4] exampleNonce))) 1
       = Some (activeSegment exampleWAL1)"
proof -
  have e: "fst (WAL_Write exampleWAL1 [4] exampleNonce)
     = Inr \<lparr>SegmentId = 2, BlockNumber = 0, ChunkOffset = 0, ChunkSize = 8, ValueNum = 1\<rparr>"
    by (simp add: exampleWAL1_eq exampleWAL_def exampleNonce_def wal_eval)
  then have h: "WAL_Write exampleWAL1 [4] exampleNonce
     = (Inr \<lparr>SegmentId = 2, BlockNumber = 0, ChunkOffset = 0, ChunkSize = 8, ValueNum = 1\<rparr>,
        snd (WAL_Write exampleWAL1 [4] exampleNonce))"
    by (simp add: prod_eq_iff)
  have s: "Size (activeSegment exampleWAL1) = 10" "SegmentSize (options exampleWAL1) = 20"
    "id_seg (activeSegment exampleWAL1) = 1"
    by (simp_all add: exampleWAL1_eq exampleWAL_def Size_def blockSize_def)
  from WAL_Write_rotation [OF h] e show ?thesis
    by (simp add: s)
qed

text \<open>
  C10. A short nonce read (fewer than twelve bytes at offset \<open>ValueNum * 12\<close>) is surfaced as
  an error of its own, distinguishable from the normal end of iteration. In the code the
  read past the end of the nonce file is \<^verbatim>\<open>io.EOF\<close>: \<^verbatim>\<open>WAL.Read\<close> returns that error and reads
  nothing, and \<^verbatim>\<open>Reader.Next\<close>, having read a record from its segment, returns \<^verbatim>\<open>io.EOF\<close>,
  which is also what it returns when all segment readers are exhausted.
\<close>

theorem short_nonce_read:
  "(findSegment wal (SegmentId pos) \<noteq> None
      \<and> 0 \<le> sint (ValueNum pos * 12)
      \<and> int (length (contents (fd_nf (nonceFile wal)))) < sint (ValueNum pos * 12) + 12
      \<longrightarrow> WAL_Read wal pool pos = Some (Inl EOF, wal))
   \<and> (currentReader r < length (segmentReaders r)
      \<and> findSegment wal (segment_sr (segmentReaders r ! currentReader r)) = Some seg
      \<and> files (dir wal) (id_seg seg) = Some f
      \<and> segmentReader_Next (segmentReaders r ! currentReader r) seg f pool
          = Some (Inr (data, position), sr', seg')
      \<and> 0 \<le> sint (word_of_int (valueNum r) * 12 :: uint64)
      \<and> int (length (contents (fd_nf (nonceFile wal))))
          < sint (word_of_int (valueNum r) * 12 :: uint64) + 12
      \<longrightarrow> Reader_Next wal r pool
          = Some (Inl EOF, r\<lparr>segmentReaders := (segmentReaders r)[currentReader r := sr']\<rparr>,
                  putSegment wal seg'))
   \<and> (length (segmentReaders r0) \<le> currentReader r0
      \<longrightarrow> Reader_Next wal r0 pool = Some (Inl EOF, r0, wal))"
proof (intro conjI impI)
  assume a: "findSegment wal (SegmentId pos) \<noteq> None
      \<and> 0 \<le> sint (ValueNum pos * 12)
      \<and> int (length (contents (fd_nf (nonceFile wal)))) < sint (ValueNum pos * 12) + 12"
  then obtain s where s: "findSegment wal (SegmentId pos) = Some s" by auto
  from a readNonce_short [of "ValueNum pos" "nonceFile wal"]
  obtain n b where "readNonce (nonceFile wal) (ValueNum pos) = (n, Some EOF, b)" by auto
  then show "WAL_Read wal pool pos = Some (Inl EOF, wal)"
    by (simp add: WAL_Read_def s)
next
  assume a: "currentReader r < length (segmentReaders r)
      \<and> findSegment wal (segment_sr (segmentReaders r ! currentReader r)) = Some seg
      \<and> files (dir wal) (id_seg seg) = Some f
      \<and> segmentReader_Next (segmentReaders r ! currentReader r) seg f pool
          = Some (Inr (data, position), sr', seg')
      \<and> 0 \<le> sint (word_of_int (valueNum r) * 12 :: uint64)
      \<and> int (length (contents (fd_nf (nonceFile wal))))
          < sint (word_of_int (valueNum r) * 12 :: uint64) + 12"
  from a readNonce_short [of "word_of_int (valueNum r)" "nonceFile wal"]
  obtain n b where rn: "readNonce (nonceFile wal) (word_of_int (valueNum r)) = (n, Some EOF, b)"
    by auto
  show "Reader_Next wal r pool
          = Some (Inl EOF, r\<lparr>segmentReaders := (segmentReaders r)[currentReader r := sr']\<rparr>,
                  putSegment wal seg')"
    apply (subst Reader_Next.simps)
    using a rn apply simp
    done
next
  assume "length (segmentReaders r0) \<le> currentReader r0"
  then show "Reader_Next wal r0 pool = Some (Inl EOF, r0, wal)"
    by (subst Reader_Next.simps) simp
qed

theorem short_nonce_read_witness:
  "WAL_Read exampleWAL0 []
      \<lparr>SegmentId = 1, BlockNumber = 0, ChunkOffset = 0, ChunkSize = 10, ValueNum = 0\<rparr>
     = Some (Inl EOF, exampleWAL0)
   \<and> Reader_Next exampleWAL0 (NewReader exampleWAL0) []
     = Some (Inl EOF,
             \<lparr>segmentReaders = [\<lparr>segment_sr = 1, blockNumber_sr = 0, chunkOffset_sr = 10\<rparr>],
                currentReader = 0, valueNum = 0\<rparr>,
             exampleWAL0)
   \<and> Reader_Next exampleWAL0 \<lparr>segmentReaders = [], currentReader = 0, valueNum = 0\<rparr> []
     = Some (Inl EOF, \<lparr>segmentReaders = [], currentReader = 0, valueNum = 0\<rparr>, exampleWAL0)"
proof -
  let ?f = "\<lparr>contents = chunkHeader [1, 2, 3] ChunkTypeFull @ [1, 2, 3],
             synced = 0, capacity = 1000, syncFails = False\<rparr>"
  have nr: "NewReader exampleWAL0
      = \<lparr>segmentReaders = [\<lparr>segment_sr = 1, blockNumber_sr = 0, chunkOffset_sr = 0\<rparr>],
         currentReader = 0, valueNum = 0\<rparr>"
    by (simp add: NewReader_def NewReaderWithMax_def segment_NewReader_def exampleWAL0_eq
        exampleWAL_def)
  have fs: "findSegment exampleWAL0 1 = Some (activeSegment exampleWAL0)"
    "files (dir exampleWAL0) (id_seg (activeSegment exampleWAL0)) = Some ?f"
    "contents (fd_nf (nonceFile exampleWAL0)) = []"
    by (simp_all add: findSegment_def exampleWAL0_eq exampleWAL_def newFile_def)
  have ps: "putSegment exampleWAL0 (activeSegment exampleWAL0) = exampleWAL0"
    by (simp add: putSegment_def)
  from short_nonce_read [of exampleWAL0
      "\<lparr>SegmentId = 1, BlockNumber = 0, ChunkOffset = 0, ChunkSize = 10, ValueNum = 0\<rparr>" "[]"
      "NewReader exampleWAL0" "activeSegment exampleWAL0" ?f "[1, 2, 3]"
      "\<lparr>SegmentId = 1, BlockNumber = 0, ChunkOffset = 0, ChunkSize = 10, ValueNum = 0\<rparr>"
      "\<lparr>segment_sr = 1, blockNumber_sr = 0, chunkOffset_sr = 10\<rparr>"
      "activeSegment exampleWAL0"
      "\<lparr>segmentReaders = [], currentReader = 0, valueNum = 0\<rparr>"]
  show ?thesis
    using exampleWAL0_segnext by (simp add: nr fs ps)
qed

text \<open>
  A record written without a nonce: the write succeeds and the nonce file stays empty. The
  reader over that WAL, whose segment holds the record, answers \<^verbatim>\<open>io.EOF\<close>, the answer of the
  reader over the empty WAL; \<^verbatim>\<open>WAL.Read\<close> of the returned position answers \<^verbatim>\<open>io.EOF\<close> too.
\<close>

theorem short_nonce_read_is_EOF:
  "fst (WAL_Write (exampleWAL 1000) [1, 2, 3] [])
     = Inr \<lparr>SegmentId = 1, BlockNumber = 0, ChunkOffset = 0, ChunkSize = 10, ValueNum = 0\<rparr>
   \<and> contents (fd_nf (nonceFile exampleWAL0)) = []
   \<and> map_option fst (Reader_Next exampleWAL0 (NewReader exampleWAL0) []) = Some (Inl EOF)
   \<and> map_option fst (Reader_Next (exampleWAL 1000) (NewReader (exampleWAL 1000)) [])
       = Some (Inl EOF)
   \<and> map_option fst (WAL_Read exampleWAL0 []
        \<lparr>SegmentId = 1, BlockNumber = 0, ChunkOffset = 0, ChunkSize = 10, ValueNum = 0\<rparr>)
       = Some (Inl EOF)"
  by (simp add: exampleWAL_write1 exampleWAL0_next exampleWAL_next exampleWAL0_read)
    (simp add: exampleWAL0_eq exampleWAL_def newFile_def)

text \<open>
  C2. \<^verbatim>\<open>WAL.WriteAll\<close> propagates an error of appending the pending nonces to the nonce
  file. With a nonce file that cannot take the nonce, \<^verbatim>\<open>nonceFile.writeAll\<close> fails, yet
  \<^verbatim>\<open>WAL.WriteAll\<close> returns the position as a success and the nonce file holds no nonce;
  \<^verbatim>\<open>WAL.Write\<close> of the same record on the same WAL returns the error.
\<close>

theorem WriteAll_drops_nonce_error:
  "fst (nonceFile_writeAll (nonceFile (exampleWAL 0)) [exampleNonce]
          [\<lparr>SegmentId = 1, BlockNumber = 0, ChunkOffset = 0, ChunkSize = 10, ValueNum = 0\<rparr>])
     = Some ErrIO
   \<and> fst (WAL_WriteAll (PendingWrites (exampleWAL 0) [1, 2, 3] exampleNonce))
     = Inr [\<lparr>SegmentId = 1, BlockNumber = 0, ChunkOffset = 0, ChunkSize = 10, ValueNum = 0\<rparr>]
   \<and> contents (fd_nf (nonceFile (snd (WAL_WriteAll
         (PendingWrites (exampleWAL 0) [1, 2, 3] exampleNonce))))) = []
   \<and> fst (WAL_Write (exampleWAL 0) [1, 2, 3] exampleNonce) = Inl ErrIO"
  by (simp add: WAL_WriteAll_def PendingWrites_def segment_writeAll_def ClearPendingWrites_def
        exampleWAL_def exampleNonce_def wal_eval)

text \<open>
  C9. \<^verbatim>\<open>NewReaderWithStart\<close> returns a reader whose first record is the first one at or after
  the start position in the lexicographic order of (segment id, block number, chunk offset).
  In the two-segment example the start position (1, 0, 100) lies after the only record of
  segment 1 and before the record at (2, 0, 0); the reader returned is already exhausted,
  because the loop compares block number and chunk offset also in a later segment.
\<close>

theorem NewReaderWithStart_skips_later_segment:
  "NewReaderWithStart exampleWAL2 []
      (Some \<lparr>SegmentId = 1, BlockNumber = 0, ChunkOffset = 100, ChunkSize = 0, ValueNum = 0\<rparr>)
     = Some (Inr \<lparr>segmentReaders = [\<lparr>segment_sr = 1, blockNumber_sr = 0, chunkOffset_sr = 10\<rparr>,
                         \<lparr>segment_sr = 2, blockNumber_sr = 0, chunkOffset_sr = 8\<rparr>],
                   currentReader = 2, valueNum = 2\<rparr>,
             exampleWAL2)
   \<and> Reader_Next exampleWAL2
        \<lparr>segmentReaders = [\<lparr>segment_sr = 1, blockNumber_sr = 0, chunkOffset_sr = 10\<rparr>,
                         \<lparr>segment_sr = 2, blockNumber_sr = 0, chunkOffset_sr = 8\<rparr>],
                   currentReader = 2, valueNum = 2\<rparr> []
     = Some (Inl EOF,
             \<lparr>segmentReaders = [\<lparr>segment_sr = 1, blockNumber_sr = 0, chunkOffset_sr = 10\<rparr>,
                         \<lparr>segment_sr = 2, blockNumber_sr = 0, chunkOffset_sr = 8\<rparr>],
                   currentReader = 2, valueNum = 2\<rparr>,
             exampleWAL2)
   \<and> WAL_Read exampleWAL2 []
        \<lparr>SegmentId = 2, BlockNumber = 0, ChunkOffset = 0, ChunkSize = 8, ValueNum = 1\<rparr>
     = Some (Inr ([4], exampleNonce), exampleWAL2)"
proof -
  have "NewReaderWithStart exampleWAL2 []
      (Some \<lparr>SegmentId = 1, BlockNumber = 0, ChunkOffset = 100, ChunkSize = 0, ValueNum = 0\<rparr>)
     = Some (Inr \<lparr>segmentReaders = [\<lparr>segment_sr = 1, blockNumber_sr = 0, chunkOffset_sr = 10\<rparr>,
                         \<lparr>segment_sr = 2, blockNumber_sr = 0, chunkOffset_sr = 8\<rparr>],
                   currentReader = 2, valueNum = 2\<rparr>,
             exampleWAL2)"
    unfolding NewReaderWithStart_def exampleWAL2_NewReader option.case
    apply (subst seekStart.simps)
    apply (simp add: exampleWAL2_next1)
    apply (subst seekStart.simps)
    apply (simp add: exampleWAL2_next2)
    apply (subst seekStart.simps)
    apply (simp add: exampleWAL2_next3)
    done
  moreover have "Reader_Next exampleWAL2
        \<lparr>segmentReaders = [\<lparr>segment_sr = 1, blockNumber_sr = 0, chunkOffset_sr = 10\<rparr>,
                         \<lparr>segment_sr = 2, blockNumber_sr = 0, chunkOffset_sr = 8\<rparr>],
                   currentReader = 2, valueNum = 2\<rparr> []
     = Some (Inl EOF,
             \<lparr>segmentReaders = [\<lparr>segment_sr = 1, blockNumber_sr = 0, chunkOffset_sr = 10\<rparr>,
                         \<lparr>segment_sr = 2, blockNumber_sr = 0, chunkOffset_sr = 8\<rparr>],
                   currentReader = 2, valueNum = 2\<rparr>,
             exampleWAL2)"
    by (subst Reader_Next.simps) simp
  ultimately show ?thesis
    by (simp add: exampleWAL2_read2)
qed




text \<open>
  C6. No chunk straddles a block boundary: every chunk that the segment write path emits, at
  block-relative offset \<open>off\<close> and with a payload of \<open>n\<close> bytes, has \<open>off + 7 \<le> 32 KiB\<close> and
  \<open>off + 7 + n \<le> 32 KiB\<close>. The code computes the sizes in \<^verbatim>\<open>uint32\<close>, so this holds of payloads
  whose sizes do not wrap: of a successful \<^verbatim>\<open>segment.Write\<close> of at most \<open>2^32 - 32 KiB\<close> bytes,
  and of a successful \<^verbatim>\<open>segment.writeAll\<close> of records of at most \<open>2^32 - 2^20\<close> bytes each that
  ends below the last of the \<open>2^32\<close> blocks, on a segment whose counters give the length of
  its file. The bytes appended are the padding and the frames of the chunks listed, and the
  offsets are those of the frames in the file, modulo the block size.
\<close>

theorem chunks_do_not_straddle:
  "(currentBlockSize seg < 32768 \<and> Size seg = int (length (contents f))
      \<and> length data + 32768 \<le> 4294967296
      \<and> segment_Write seg f data = (Inr pos, seg', f')
    \<longrightarrow> contents f' = contents f @ batchBytes (length (contents f)) [data]
        \<and> (\<forall>(off, ch) \<in> set (batchChunks (length (contents f)) [data]).
              off + 7 \<le> 32768 \<and> off + 7 + length (snd ch) \<le> 32768))
   \<and> (currentBlockSize seg < 32768 \<and> Size seg = int (length (contents f))
      \<and> (\<forall>d \<in> set ds. length d \<le> 4293918720)
      \<and> length (contents f) + length (batchBytes (length (contents f)) ds) + 32768
           \<le> 4294967296 * 32768
      \<and> segment_writeAll seg f ds = (Inr ps, seg'', f'')
    \<longrightarrow> contents f'' = contents f @ batchBytes (length (contents f)) ds
        \<and> (\<forall>(off, ch) \<in> set (batchChunks (length (contents f)) ds).
              off + 7 \<le> 32768 \<and> off + 7 + length (snd ch) \<le> 32768))"
proof (intro conjI impI ballI)
  assume a: "currentBlockSize seg < 32768 \<and> Size seg = int (length (contents f))
      \<and> length data + 32768 \<le> 4294967296
      \<and> segment_Write seg f data = (Inr pos, seg', f')"
  then have cb: "currentBlockSize seg < 32768" and sz: "Size seg = int (length (contents f))"
    and L: "length data + 32768 \<le> 4294967296"
    and w: "segment_Write seg f data = (Inr pos, seg', f')"
    by simp_all
  let ?c = "unat (currentBlockSize seg)"
  have c: "?c < 32768" using cb by (simp add: word_less_nat_alt)
  from sz [unfolded Size_nat]
  have "int (unat (currentBlockNumber seg) * 32768 + ?c) = int (length (contents f))" .
  then have len: "length (contents f) = unat (currentBlockNumber seg) * 32768 + ?c"
    by (simp only: of_nat_eq_iff)
  have f': "f' = f\<lparr>contents := contents f @ replicate (padLen ?c) 0
          @ concat (map frame (recordChunks (startOffset ?c) data))\<rparr>"
    by (rule segment_Write_success(4) [OF cb L w])
  show "contents f' = contents f @ batchBytes (length (contents f)) [data]"
    unfolding batch_single(1) [OF c len] by (simp add: f' recordBytes_def)
next
  fix x
  assume "x \<in> set (batchChunks (length (contents f)) [data])"
  then show "case x of (off, ch) \<Rightarrow> off + 7 \<le> 32768 \<and> off + 7 + length (snd ch) \<le> 32768"
    using batchChunks_fit [of "fst x" "snd x" "length (contents f)" "[data]"]
    by (simp add: case_prod_beta)
next
  assume a: "currentBlockSize seg < 32768 \<and> Size seg = int (length (contents f))
      \<and> (\<forall>d \<in> set ds. length d \<le> 4293918720)
      \<and> length (contents f) + length (batchBytes (length (contents f)) ds) + 32768
           \<le> 4294967296 * 32768
      \<and> segment_writeAll seg f ds = (Inr ps, seg'', f'')"
  then have cb: "currentBlockSize seg < 32768" and sz: "Size seg = int (length (contents f))"
    and small: "\<forall>d \<in> set ds. length d \<le> 4293918720"
    and bound: "length (contents f) + length (batchBytes (length (contents f)) ds) + 32768
           \<le> 4294967296 * 32768"
    and w: "segment_writeAll seg f ds = (Inr ps, seg'', f'')"
    by simp_all
  show "contents f'' = contents f @ batchBytes (length (contents f)) ds"
    by (rule segment_writeAll_layout [OF cb sz small bound w])
next
  fix x
  assume "x \<in> set (batchChunks (length (contents f)) ds)"
  then show "case x of (off, ch) \<Rightarrow> off + 7 \<le> 32768 \<and> off + 7 + length (snd ch) \<le> 32768"
    using batchChunks_fit [of "fst x" "snd x" "length (contents f)" ds]
    by (simp add: case_prod_beta)
qed

theorem chunks_do_not_straddle_witness:
  "currentBlockSize (activeSegment exampleWAL1) < 32768
   \<and> Size (activeSegment exampleWAL1)
       = int (length (contents \<lparr>contents = chunkHeader [1, 2, 3] ChunkTypeFull @ [1, 2, 3],
                                 synced = 0, capacity = 1000, syncFails = False\<rparr>))
   \<and> fst (segment_Write (activeSegment exampleWAL1)
            \<lparr>contents = chunkHeader [1, 2, 3] ChunkTypeFull @ [1, 2, 3],
               synced = 0, capacity = 1000, syncFails = False\<rparr> [4])
       = Inr \<lparr>SegmentId = 1, BlockNumber = 0, ChunkOffset = 10, ChunkSize = 8, ValueNum = 0\<rparr>
   \<and> fst (segment_writeAll (activeSegment exampleWAL1)
            \<lparr>contents = chunkHeader [1, 2, 3] ChunkTypeFull @ [1, 2, 3],
               synced = 0, capacity = 1000, syncFails = False\<rparr> [[4], [5]])
       = Inr [\<lparr>SegmentId = 1, BlockNumber = 0, ChunkOffset = 10, ChunkSize = 8, ValueNum = 0\<rparr>,
              \<lparr>SegmentId = 1, BlockNumber = 0, ChunkOffset = 18, ChunkSize = 8, ValueNum = 0\<rparr>]
   \<and> batchChunks 10 [[4], [5]] = [(10, ChunkTypeFull, [4]), (18, ChunkTypeFull, [5])]
   \<and> contents (snd (snd (segment_Write (activeSegment exampleWAL1)
            \<lparr>contents = chunkHeader [1, 2, 3] ChunkTypeFull @ [1, 2, 3],
               synced = 0, capacity = 1000, syncFails = False\<rparr> [4])))
       = chunkHeader [1, 2, 3] ChunkTypeFull @ [1, 2, 3] @ frame (ChunkTypeFull, [4])
   \<and> contents (snd (snd (segment_writeAll (activeSegment exampleWAL1)
            \<lparr>contents = chunkHeader [1, 2, 3] ChunkTypeFull @ [1, 2, 3],
               synced = 0, capacity = 1000, syncFails = False\<rparr> [[4], [5]])))
       = chunkHeader [1, 2, 3] ChunkTypeFull @ [1, 2, 3]
           @ frame (ChunkTypeFull, [4]) @ frame (ChunkTypeFull, [5])"
proof -
  let ?S = "activeSegment exampleWAL1"
  let ?F = "\<lparr>contents = chunkHeader [1, 2, 3] ChunkTypeFull @ [1, 2, 3],
               synced = 0, capacity = 1000, syncFails = False\<rparr>"
  let ?P = "\<lparr>SegmentId = 1, BlockNumber = 0, ChunkOffset = 10, ChunkSize = 8, ValueNum = 0\<rparr>"
  let ?Q = "\<lparr>SegmentId = 1, BlockNumber = 0, ChunkOffset = 18, ChunkSize = 8, ValueNum = 0\<rparr>"
  have cb: "currentBlockSize ?S < 32768"
    and sz: "Size ?S = int (length (contents ?F))"
    by (simp_all add: exampleWAL1_eq exampleWAL_def Size_def blockSize_def)
  have lf: "length (contents ?F) = 10" by simp
  have e: "fst (segment_Write ?S ?F [4]) = Inr ?P"
    by (simp add: exampleWAL1_eq exampleWAL_def wal_eval)
  then have h: "segment_Write ?S ?F [4]
      = (Inr ?P, fst (snd (segment_Write ?S ?F [4])), snd (snd (segment_Write ?S ?F [4])))"
    by (simp add: prod_eq_iff)
  have e2: "fst (segment_writeAll ?S ?F [[4], [5]]) = Inr [?P, ?Q]"
    by (simp add: exampleWAL1_eq exampleWAL_def segment_writeAll_def wal_eval)
  then have h2: "segment_writeAll ?S ?F [[4], [5]]
      = (Inr [?P, ?Q], fst (snd (segment_writeAll ?S ?F [[4], [5]])),
         snd (snd (segment_writeAll ?S ?F [[4], [5]])))"
    by (simp add: prod_eq_iff)
  have bb: "batchBytes 10 [[4]] = frame (ChunkTypeFull, [4])"
    "batchBytes 10 [[4], [5]] = frame (ChunkTypeFull, [4]) @ frame (ChunkTypeFull, [5])"
    "batchChunks 10 [[4], [5]] = [(10, ChunkTypeFull, [4]), (18, ChunkTypeFull, [5])]"
    by (simp_all add: recordBytes_def padLen_def startOffset_def recordChunks_def frame_def
        blockSize_def chunkHeaderSize_def)
  have lb: "length (frame (ChunkTypeFull, [4 :: byte])) = 8"
    "length (frame (ChunkTypeFull, [5 :: byte])) = 8"
    by (simp_all add: frame_def)
  from chunks_do_not_straddle [of ?S ?F "[4]" ?P "fst (snd (segment_Write ?S ?F [4]))"
      "snd (snd (segment_Write ?S ?F [4]))" "[[4], [5]]" "[?P, ?Q]"
      "fst (snd (segment_writeAll ?S ?F [[4], [5]]))"
      "snd (snd (segment_writeAll ?S ?F [[4], [5]]))"]
  have "contents (snd (snd (segment_Write ?S ?F [4])))
          = contents ?F @ frame (ChunkTypeFull, [4])
      \<and> contents (snd (snd (segment_writeAll ?S ?F [[4], [5]])))
          = contents ?F @ frame (ChunkTypeFull, [4]) @ frame (ChunkTypeFull, [5])"
    using cb sz h h2 unfolding lf bb by (simp add: lb)
  with cb sz e e2 bb(3) show ?thesis by simp
qed

text \<open>
  A payload of \<open>2^32 - 50\<close> bytes written at cursor 100: in \<^verbatim>\<open>uint32\<close> the sum
  \<open>100 + (2^32 - 50) + 7\<close> is 57, so the record counts as fitting into the block and is
  written, with success, as one full chunk at offset 100 whose payload runs far past the end
  of the block.
\<close>

theorem full_chunk_across_blocks:
  "fst (segment_Write ((activeSegment (exampleWAL 1000))\<lparr>currentBlockSize := 100\<rparr>)
          \<lparr>contents = replicate 100 0, synced = 0, capacity = 5000000000, syncFails = False\<rparr>
          (replicate 4294967246 0))
     = Inr \<lparr>SegmentId = 1, BlockNumber = 0, ChunkOffset = 100, ChunkSize = 4294967253,
            ValueNum = 0\<rparr>
   \<and> contents (snd (snd (segment_Write
          ((activeSegment (exampleWAL 1000))\<lparr>currentBlockSize := 100\<rparr>)
          \<lparr>contents = replicate 100 0, synced = 0, capacity = 5000000000, syncFails = False\<rparr>
          (replicate 4294967246 0))))
     = replicate 100 0 @ frame (ChunkTypeFull, replicate 4294967246 0)
   \<and> \<not> (100 + 7 + length (replicate 4294967246 (0 :: byte)) \<le> 32768)"
  by (simp add: segment_Write_def writeToBuffer_def padBlock_def emitRecord_def
      appendChunkBuffer_def advanceBlock_def writeChunkBuffer_def fileWrite_def exampleWAL_def
      frame_def blockSize_def chunkHeaderSize_def Let_def)

text \<open>
  C3. Every successful write through the WAL appends exactly one nonce and stamps the
  position with that nonce's ordinal; the ordinals go up by one from the nonce file's
  \<^verbatim>\<open>curNum\<close>, which is the file size divided by twelve at open. In the code
  \<^verbatim>\<open>nonceFile.Write\<close> returns at once on an empty nonce, so this holds of a single write with a
  non-empty nonce: on a nonce file of \<^verbatim>\<open>curNum\<close> twelve-byte slots the nonce is appended at
  byte offset \<open>ValueNum * 12\<close>, \<open>ValueNum\<close> is the earlier \<^verbatim>\<open>curNum\<close>, and \<^verbatim>\<open>curNum\<close> grows by
  one; a twelve-byte nonce keeps the file in that shape, so the next such write is stamped
  with the next ordinal. A write with an empty nonce appends nothing and is stamped 0. A
  batch of twelve-byte nonces whose appends succeed stamps its positions with the ordinals
  of their nonces.
\<close>

theorem nonce_ordinals:
  "(wfNonce wal \<and> nonce \<noteq> [] \<and> WAL_Write wal data nonce = (Inr pos, wal')
    \<longrightarrow> ValueNum pos = word_of_int (curNum (nonceFile wal))
        \<and> unat (ValueNum pos) * 12 = length (contents (fd_nf (nonceFile wal)))
        \<and> contents (fd_nf (nonceFile wal')) = contents (fd_nf (nonceFile wal)) @ nonce
        \<and> drop (unat (ValueNum pos) * 12) (contents (fd_nf (nonceFile wal'))) = nonce
        \<and> curNum (nonceFile wal') = curNum (nonceFile wal) + 1
        \<and> (length nonce = 12
             \<longrightarrow> int (length (contents (fd_nf (nonceFile wal')))) = curNum (nonceFile wal') * 12))
   \<and> (WAL_Write w0 d0 [] = (Inr p0, w0')
    \<longrightarrow> ValueNum p0 = 0
        \<and> contents (fd_nf (nonceFile w0')) = contents (fd_nf (nonceFile w0))
        \<and> curNum (nonceFile w0') = curNum (nonceFile w0))
   \<and> (wfNonce wa \<and> length n1 = 12 \<and> length n2 = 12
      \<and> WAL_Write wa d1 n1 = (Inr p1, w1) \<and> WAL_Write w1 d2 n2 = (Inr p2, w2)
    \<longrightarrow> unat (ValueNum p2) = unat (ValueNum p1) + 1)
   \<and> (wfNonce wb \<and> (\<forall>n \<in> set (pendingNonceWrites wb). length n = 12)
      \<and> pendingWrites wb \<noteq> []
      \<and> length (pendingNonceWrites wb) = length (pendingWrites wb)
      \<and> length (contents (fd_nf (nonceFile wb))) + length (concat (pendingNonceWrites wb))
           \<le> capacity (fd_nf (nonceFile wb))
      \<and> length (contents (fd_nf (nonceFile wb))) + length (concat (pendingNonceWrites wb))
           < 2 ^ 62
      \<and> WAL_WriteAll wb = (Inr ps, wb')
    \<longrightarrow> length ps = length (pendingWrites wb)
        \<and> (\<forall>i < length ps.
              unat (ValueNum (ps ! i)) = nat (curNum (nonceFile wb)) + i
              \<and> take 12 (drop (unat (ValueNum (ps ! i)) * 12)
                            (contents (fd_nf (nonceFile wb'))))
                  = pendingNonceWrites wb ! i)
        \<and> contents (fd_nf (nonceFile wb'))
            = contents (fd_nf (nonceFile wb)) @ concat (pendingNonceWrites wb)
        \<and> curNum (nonceFile wb') = curNum (nonceFile wb) + int (length (pendingWrites wb))
        \<and> int (length (contents (fd_nf (nonceFile wb')))) = curNum (nonceFile wb') * 12)
   \<and> curNum (openNonceFile fd) = int (length (contents fd)) div 12"
proof -
  have one: "ValueNum pos = word_of_int (curNum (nonceFile wal))
        \<and> unat (ValueNum pos) * 12 = length (contents (fd_nf (nonceFile wal)))
        \<and> contents (fd_nf (nonceFile wal')) = contents (fd_nf (nonceFile wal)) @ nonce
        \<and> drop (unat (ValueNum pos) * 12) (contents (fd_nf (nonceFile wal'))) = nonce
        \<and> curNum (nonceFile wal') = curNum (nonceFile wal) + 1
        \<and> (length nonce = 12
             \<longrightarrow> int (length (contents (fd_nf (nonceFile wal')))) = curNum (nonceFile wal') * 12)"
    if a: "wfNonce wal \<and> nonce \<noteq> [] \<and> WAL_Write wal data nonce = (Inr pos, wal')"
  proof -
    from a have link: "int (length (contents (fd_nf (nonceFile wal)))) = curNum (nonceFile wal) * 12"
      and small: "length (contents (fd_nf (nonceFile wal))) < 2 ^ 62"
      and ne: "nonce \<noteq> []" and w: "WAL_Write wal data nonce = (Inr pos, wal')"
      by (simp_all add: wfNonce_def nonceSize_def)
    note n = WAL_Write_nonce [OF w ne]
    note s = slot_of_curNum [OF link small]
    have off: "unat (ValueNum pos) * 12 = length (contents (fd_nf (nonceFile wal)))"
      unfolding n(1) by (rule s(1))
    have dr: "drop (unat (ValueNum pos) * 12) (contents (fd_nf (nonceFile wal'))) = nonce"
      unfolding off n(2) by simp
    have lk: "length nonce = 12
             \<longrightarrow> int (length (contents (fd_nf (nonceFile wal')))) = curNum (nonceFile wal') * 12"
      using link by (simp add: n(2,3))
    from n(1) off n(2) dr n(3) lk show ?thesis by blast
  qed
  have two: "ValueNum p0 = 0
        \<and> contents (fd_nf (nonceFile w0')) = contents (fd_nf (nonceFile w0))
        \<and> curNum (nonceFile w0') = curNum (nonceFile w0)"
    if a: "WAL_Write w0 d0 [] = (Inr p0, w0')"
    using WAL_Write_no_nonce [OF a] by simp
  have three: "unat (ValueNum p2) = unat (ValueNum p1) + 1"
    if a: "wfNonce wa \<and> length n1 = 12 \<and> length n2 = 12
      \<and> WAL_Write wa d1 n1 = (Inr p1, w1) \<and> WAL_Write w1 d2 n2 = (Inr p2, w2)"
  proof -
    from a have link: "int (length (contents (fd_nf (nonceFile wa)))) = curNum (nonceFile wa) * 12"
      and small: "length (contents (fd_nf (nonceFile wa))) < 2 ^ 62"
      and ne1: "n1 \<noteq> []" and ne2: "n2 \<noteq> []"
      and w1: "WAL_Write wa d1 n1 = (Inr p1, w1)" and w2: "WAL_Write w1 d2 n2 = (Inr p2, w2)"
      by (auto simp add: wfNonce_def nonceSize_def)
    note a1 = WAL_Write_nonce [OF w1 ne1]
    note a2 = WAL_Write_nonce [OF w2 ne2]
    note s = slot_of_curNum [OF link small]
    have u1: "unat (ValueNum p1) = nat (curNum (nonceFile wa))"
      unfolding a1(1) using s(2,3) by (intro unat64_of_int) auto
    have u2: "unat (ValueNum p2) = nat (curNum (nonceFile wa) + 1)"
      unfolding a2(1) a1(3) using s(2,3) by (intro unat64_of_int) auto
    show ?thesis unfolding u1 u2 using s(2) by simp
  qed
  have four: "length ps = length (pendingWrites wb)
        \<and> (\<forall>i < length ps.
              unat (ValueNum (ps ! i)) = nat (curNum (nonceFile wb)) + i
              \<and> take 12 (drop (unat (ValueNum (ps ! i)) * 12)
                            (contents (fd_nf (nonceFile wb'))))
                  = pendingNonceWrites wb ! i)
        \<and> contents (fd_nf (nonceFile wb'))
            = contents (fd_nf (nonceFile wb)) @ concat (pendingNonceWrites wb)
        \<and> curNum (nonceFile wb') = curNum (nonceFile wb) + int (length (pendingWrites wb))
        \<and> int (length (contents (fd_nf (nonceFile wb')))) = curNum (nonceFile wb') * 12"
    if a: "wfNonce wb \<and> (\<forall>n \<in> set (pendingNonceWrites wb). length n = 12)
      \<and> pendingWrites wb \<noteq> []
      \<and> length (pendingNonceWrites wb) = length (pendingWrites wb)
      \<and> length (contents (fd_nf (nonceFile wb))) + length (concat (pendingNonceWrites wb))
           \<le> capacity (fd_nf (nonceFile wb))
      \<and> length (contents (fd_nf (nonceFile wb))) + length (concat (pendingNonceWrites wb))
           < 2 ^ 62
      \<and> WAL_WriteAll wb = (Inr ps, wb')"
  proof -
    let ?c = "contents (fd_nf (nonceFile wb))"
    let ?ns = "pendingNonceWrites wb"
    let ?k = "curNum (nonceFile wb)"
    from a have link: "int (length ?c) = ?k * 12"
      and small: "length ?c < 2 ^ 62"
      and tw: "\<forall>n \<in> set ?ns. length n = 12"
      and ne: "pendingWrites wb \<noteq> []"
      and len: "length ?ns = length (pendingWrites wb)"
      and cap: "length ?c + length (concat ?ns) \<le> capacity (fd_nf (nonceFile wb))"
      and tot: "length ?c + length (concat ?ns) < 2 ^ 62"
      and w: "WAL_WriteAll wb = (Inr ps, wb')"
      by (simp_all add: wfNonce_def nonceSize_def)
    note b = WAL_WriteAll_nonces [OF w ne len cap]
    note s = slot_of_curNum [OF link small]
    have lc: "length (concat ?ns) = length ?ns * 12"
      using tw by (rule length_concat_twelve)
    have nk: "nat ?k * 12 = length ?c"
    proof -
      have "int (nat ?k * 12) = int (length ?c)" using s(2) link by simp
      then show ?thesis by (simp only: of_nat_eq_iff)
    qed
    have each: "unat (ValueNum (ps ! i)) = nat ?k + i
              \<and> take 12 (drop (unat (ValueNum (ps ! i)) * 12)
                            (contents (fd_nf (nonceFile wb')))) = ?ns ! i"
      if i: "i < length ps" for i
    proof -
      have il: "i < length ?ns" using i b(1) len by simp
      have "i * 12 < length ?ns * 12" using il by simp
      then have "int i < 4611686018427387904" using tot lc by simp
      then have "?k + int i < 2 ^ 64" using s(3) by simp
      moreover have "0 \<le> ?k + int i" using s(2) by simp
      ultimately have "unat (word_of_int (?k + int i) :: uint64) = nat (?k + int i)"
        by (rule unat64_of_int [rotated])
      then have u: "unat (ValueNum (ps ! i)) = nat ?k + i"
        using b(2) [OF i] s(2) by (simp add: nat_add_distrib)
      have "(nat ?k + i) * 12 = length ?c + i * 12"
        using nk by (simp add: add_mult_distrib)
      then have "drop ((nat ?k + i) * 12) (?c @ concat ?ns) = drop (i * 12) (concat ?ns)"
        by simp
      then have "take 12 (drop (unat (ValueNum (ps ! i)) * 12)
                            (contents (fd_nf (nonceFile wb')))) = ?ns ! i"
        unfolding u b(3) using nth_twelve [OF tw il] by simp
      with u show ?thesis by simp
    qed
    have lk: "int (length (contents (fd_nf (nonceFile wb')))) = curNum (nonceFile wb') * 12"
      using link len by (simp add: b(3,4) lc)
    from b(1) each b(3) b(4) lk show ?thesis by blast
  qed
  have five: "curNum (openNonceFile fd) = int (length (contents fd)) div 12"
    by (simp add: openNonceFile_def nonceSize_def)
  from one two three four five show ?thesis by blast
qed


theorem nonce_ordinals_witness:
  "wfNonce exampleWAL1 \<and> wfNonce (exampleWAL 1000) \<and> wfNonce exampleBatch
   \<and> fst (WAL_Write exampleWAL1 [4] exampleNonce)
       = Inr \<lparr>SegmentId = 2, BlockNumber = 0, ChunkOffset = 0, ChunkSize = 8, ValueNum = 1\<rparr>
   \<and> drop 12 (contents (fd_nf (nonceFile exampleWAL2))) = exampleNonce
   \<and> curNum (nonceFile exampleWAL2) = 2
   \<and> fst (WAL_Write exampleWAL1 [4] [])
       = Inr \<lparr>SegmentId = 2, BlockNumber = 0, ChunkOffset = 0, ChunkSize = 8, ValueNum = 0\<rparr>
   \<and> curNum (nonceFile (snd (WAL_Write exampleWAL1 [4] []))) = 1
   \<and> fst (WAL_Write (exampleWAL 1000) [1, 2, 3] exampleNonce)
       = Inr \<lparr>SegmentId = 1, BlockNumber = 0, ChunkOffset = 0, ChunkSize = 10, ValueNum = 0\<rparr>
   \<and> fst (WAL_WriteAll exampleBatch)
       = Inr [\<lparr>SegmentId = 1, BlockNumber = 0, ChunkOffset = 10, ChunkSize = 8, ValueNum = 1\<rparr>,
              \<lparr>SegmentId = 1, BlockNumber = 0, ChunkOffset = 18, ChunkSize = 8, ValueNum = 2\<rparr>]
   \<and> curNum (nonceFile (snd (WAL_WriteAll exampleBatch))) = 3
   \<and> contents (fd_nf (nonceFile (snd (WAL_WriteAll exampleBatch))))
       = exampleNonce @ exampleNonce @ exampleNonce"
proof -
  let ?pn = "\<lparr>SegmentId = 2, BlockNumber = 0, ChunkOffset = 0, ChunkSize = 8, ValueNum = 1\<rparr>"
  let ?pe = "\<lparr>SegmentId = 2, BlockNumber = 0, ChunkOffset = 0, ChunkSize = 8, ValueNum = 0\<rparr>"
  let ?pf = "\<lparr>SegmentId = 1, BlockNumber = 0, ChunkOffset = 0, ChunkSize = 10, ValueNum = 0\<rparr>"
  let ?qa = "\<lparr>SegmentId = 1, BlockNumber = 0, ChunkOffset = 10, ChunkSize = 8, ValueNum = 1\<rparr>"
  let ?qb = "\<lparr>SegmentId = 1, BlockNumber = 0, ChunkOffset = 18, ChunkSize = 8, ValueNum = 2\<rparr>"
  have wf: "wfNonce exampleWAL1" "wfNonce (exampleWAL 1000)" "wfNonce exampleBatch"
    by (simp_all add: wfNonce_def exampleBatch_eval exampleWAL1_fields exampleWAL_def
        newFile_def exampleNonce_def nonceSize_def)
  have ne: "exampleNonce \<noteq> []" "length exampleNonce = 12"
    by (simp_all add: exampleNonce_def)
  have e: "fst (WAL_Write exampleWAL1 [4] exampleNonce) = Inr ?pn"
    by (simp add: exampleWAL1_eq exampleWAL_def exampleNonce_def wal_eval)
  then have h: "WAL_Write exampleWAL1 [4] exampleNonce = (Inr ?pn, exampleWAL2)"
    by (simp add: prod_eq_iff exampleWAL2_def)
  have e0: "fst (WAL_Write exampleWAL1 [4] []) = Inr ?pe"
    by (simp add: exampleWAL1_eq exampleWAL_def exampleNonce_def wal_eval)
  then have h0: "WAL_Write exampleWAL1 [4] [] = (Inr ?pe, snd (WAL_Write exampleWAL1 [4] []))"
    by (simp add: prod_eq_iff)
  have h1: "WAL_Write (exampleWAL 1000) [1, 2, 3] exampleNonce = (Inr ?pf, exampleWAL1)"
    by (simp add: exampleWAL_write1n exampleWAL1_def)
  have hb: "WAL_WriteAll exampleBatch = (Inr [?qa, ?qb], snd (WAL_WriteAll exampleBatch))"
    using exampleBatch_eval(1) by (simp add: prod_eq_iff)
  have hyp: "\<forall>n \<in> set (pendingNonceWrites exampleBatch). length n = 12"
    "pendingWrites exampleBatch \<noteq> []"
    "length (pendingNonceWrites exampleBatch) = length (pendingWrites exampleBatch)"
    "length (contents (fd_nf (nonceFile exampleBatch)))
       + length (concat (pendingNonceWrites exampleBatch))
      \<le> capacity (fd_nf (nonceFile exampleBatch))"
    "length (contents (fd_nf (nonceFile exampleBatch)))
       + length (concat (pendingNonceWrites exampleBatch)) < 2 ^ 62"
    by (simp_all add: exampleBatch_eval(3-7) exampleNonce_def)
  from nonce_ordinals [where wal = exampleWAL1 and nonce = exampleNonce and data = "[4]"
      and pos = ?pn and wal' = exampleWAL2
      and ?w0.0 = exampleWAL1 and ?d0.0 = "[4]" and ?p0.0 = ?pe
      and w0' = "snd (WAL_Write exampleWAL1 [4] [])"
      and wa = "exampleWAL 1000" and ?n1.0 = exampleNonce and ?n2.0 = exampleNonce
      and ?d1.0 = "[1, 2, 3]" and ?p1.0 = ?pf and ?w1.0 = exampleWAL1
      and ?d2.0 = "[4]" and ?p2.0 = ?pn and ?w2.0 = exampleWAL2
      and wb = exampleBatch and ps = "[?qa, ?qb]" and wb' = "snd (WAL_WriteAll exampleBatch)"]
  have "drop 12 (contents (fd_nf (nonceFile exampleWAL2))) = exampleNonce
      \<and> curNum (nonceFile exampleWAL2) = 2
      \<and> curNum (nonceFile (snd (WAL_Write exampleWAL1 [4] []))) = 1
      \<and> curNum (nonceFile (snd (WAL_WriteAll exampleBatch))) = 3"
    using wf ne h h0 h1 hb hyp
    by (simp add: exampleWAL1_fields exampleBatch_eval(3-7))
  with wf e e0 h1 exampleBatch_eval(1,2) show ?thesis by simp
qed

text \<open>
  After one record with a nonce, a second record written with an empty nonce succeeds, is
  stamped with ordinal 0 although the nonce file's \<^verbatim>\<open>curNum\<close> is 1, and appends nothing to the
  nonce file.
\<close>

theorem empty_nonce_not_counted:
  "fst (WAL_Write exampleWAL1 [4] [])
     = Inr \<lparr>SegmentId = 2, BlockNumber = 0, ChunkOffset = 0, ChunkSize = 8, ValueNum = 0\<rparr>
   \<and> curNum (nonceFile exampleWAL1) = 1
   \<and> contents (fd_nf (nonceFile (snd (WAL_Write exampleWAL1 [4] [])))) = exampleNonce
   \<and> contents (fd_nf (nonceFile exampleWAL1)) = exampleNonce
   \<and> curNum (nonceFile (snd (WAL_Write exampleWAL1 [4] []))) = 1"
  by (simp add: exampleWAL1_eq exampleWAL_def exampleNonce_def wal_eval)

text \<open>
  C1. Write-read round trip: if \<^verbatim>\<open>WAL.Write(data, nonce)\<close> succeeds with position \<open>pos\<close>, then
  \<^verbatim>\<open>WAL.Read(pos)\<close> returns exactly \<open>(data, nonce)\<close>. \<^verbatim>\<open>WAL.Read\<close> reads twelve bytes at offset
  \<open>ValueNum * 12\<close> of the nonce file, and \<^verbatim>\<open>nonceFile.Write\<close> writes nothing for an empty nonce,
  so this holds of nonces of twelve bytes, on a well-formed WAL (the counters of the active
  segment give the length of its file, the nonce file consists of \<^verbatim>\<open>curNum\<close> twelve-byte
  slots, the next segment file does not exist yet) whose segment size is at most 2 GiB.
\<close>

theorem write_read_round_trip:
  assumes wf: "wfWAL wal"
    and ss: "SegmentSize (options wal) \<le> 2147483648"
    and n: "length nonce = 12"
    and w: "WAL_Write wal data nonce = (Inr pos, wal')"
  shows "map_option fst (WAL_Read wal' pool pos) = Some (Inr (data, nonce))"
proof -
  from w obtain wal1 f position seg' f' nf' where
    r: "rotateIfFull wal (isFull wal (int (length data))) = (None, wal1)"
    and fl: "files (dir wal1) (id_seg (activeSegment wal1)) = Some f"
    and sw: "segment_Write (activeSegment wal1) f data = (Inr position, seg', f')"
    and nw: "nonceFile_Write (nonceFile wal1) nonce position = (None, pos, nf')"
    and sy: "syncIfNeeded (putFile (wal1\<lparr>activeSegment := seg', nonceFile := nf'\<rparr>) (id_seg seg') f') pos
       = (Inr pos, wal')"
    and six: "int (length data) + 7 \<le> SegmentSize (options wal)"
    by (rule WAL_Write_success)
  let ?seg1 = "activeSegment wal1"
  let ?c = "unat (currentBlockSize ?seg1)"
  let ?so = "startOffset ?c"
  let ?N = "length (recordChunks ?so data)"
  let ?seg1' = "if 32768 \<le> ?c + 7
         then ?seg1\<lparr>currentBlockNumber := currentBlockNumber ?seg1 + 1, currentBlockSize := 0\<rparr>
         else ?seg1"
  note rw = rotateIfFull_wf [OF wf r fl]
  have ne: "nonce \<noteq> []" using n by auto
  have Ld: "length data \<le> 2147483648" using six ss by linarith
  have L: "length data + 32768 \<le> 4294967296" using Ld by simp
  note s = segment_Write_success [OF rw(1) L sw]
  have fb: "length (contents f) \<le> 2147483648"
  proof (cases "isFull wal (int (length data))")
    case True
    then show ?thesis using rw(4) by simp
  next
    case False
    then have w1: "wal1 = wal" by (rule rw(5))
    have "0 \<le> maxDataWriteSize (int (length data))"
      by (rule maxDataWriteSize_nonneg) simp
    moreover have "Size (activeSegment wal) + maxDataWriteSize (int (length data))
        \<le> SegmentSize (options wal)"
      using False by (simp add: isFull_def)
    moreover have "Size (activeSegment wal) = int (length (contents f))"
      using rw(2) unfolding w1 .
    ultimately show ?thesis using ss by linarith
  qed
  have "?N \<le> length data div 32761 + 2" by (rule length_recordChunks)
  moreover have "length data div 32761 \<le> 2147483648 div 32761"
    using Ld by (rule div_le_mono)
  ultimately have N: "?N \<le> 65552" by simp
  have sm: "?N * 7 + length data + 32768 \<le> 4294967296" using N Ld by simp
  have bd: "length (contents f) + 7 + (?N * 7 + length data) < 4294967296 * 32768"
    using N Ld fb by simp
  note cn = segment_Write_counters [OF rw(1) rw(2) sm bd]
  have cf': "contents f' = contents f @ replicate (padLen ?c) 0
               @ concat (map frame (recordChunks ?so data))"
    by (simp add: s(4))
  have lf': "length (contents f') = length (contents f) + padLen ?c + (?N * 7 + length data)"
    by (simp add: cf' length_frames_recordChunks)
  have nc': "\<not> closed seg'"
    using s(1) by (simp add: s(3) advanceBlock_def Let_def)
  have sz': "Size seg' = int (length (contents f'))"
    using cn(3) by (simp add: s(3) Size_def lf')
  have sb': "isStartupTraversal seg'
               \<longrightarrow> length (block (startupBlock seg')) = 32768
                   \<and> blockNumber_sb (startupBlock seg') < uint (BlockNumber position)"
  proof -
    have "0 \<le> uint (BlockNumber position)" by simp
    then have u0: "- 1 < uint (BlockNumber position)" by linarith
    show ?thesis using rw(3) u0 by (simp add: s(3))
  qed
  have bn: "BlockNumber position = currentBlockNumber ?seg1'"
    by (simp add: s(2))
  have bpos: "unat (BlockNumber position) * 32768 + ?so = length (contents f) + padLen ?c"
    using cn(1) unfolding cn(2) bn .
  have so: "?so \<le> 32760"
    using rw(1) by (intro startOffset_le) (simp add: word_less_nat_alt)
  have nowrap: "length (contents f') < 4294967296 * 32768"
    using N Ld fb padLen_le [of ?c] by (simp add: lf')
  have fr: "take (length (concat (map frame (recordChunks ?so data))))
               (drop (unat (BlockNumber position) * 32768 + ?so) (contents f'))
             = concat (map frame (recordChunks ?so data))"
    unfolding bpos cf' by simp
  note sf = syncIfNeeded_fields [OF sy]
  have act: "activeSegment wal' = seg'"
    using sf(2) by (simp add: putFile_def)
  have "map_option contents (files (dir wal') (id_seg seg')) = Some (contents f')"
    using sf(7) [of "id_seg seg'"] by (simp add: putFile_def)
  then obtain f'' where f'': "files (dir wal') (id_seg seg') = Some f''"
    and cf'': "contents f'' = contents f'"
    by (cases "files (dir wal') (id_seg seg')") auto
  from segment_Read_record [of seg' f'' ?so data "BlockNumber position" pool]
  obtain seg'' where
    rd: "segment_Read seg' f'' pool (BlockNumber position) (int ?so) = Some (Inr data, seg'')"
    using nc' sz' nowrap so fr sb' unfolding cf'' by blast
  have link: "int (length (contents (fd_nf (nonceFile wal)))) = curNum (nonceFile wal) * 12"
    and small: "length (contents (fd_nf (nonceFile wal))) < 2 ^ 62"
    using wf by (simp_all add: wfWAL_def wfNonce_def nonceSize_def)
  note wn = WAL_Write_nonce [OF w ne]
  have rn: "readNonce (nonceFile wal') (ValueNum pos) = (12, None, nonce)"
    unfolding wn(1) by (rule readNonce_appended [OF link small wn(2) n])
  have pp: "pos = position\<lparr>ValueNum := word_of_int (curNum (nonceFile wal1))\<rparr>"
    using nonceFile_Write_fields(3) [OF nw ne] by simp
  have sid: "SegmentId pos = id_seg seg'"
    using segment_Write_id [OF sw] by (simp add: pp)
  have bp: "BlockNumber pos = BlockNumber position" by (simp add: pp)
  have "ChunkOffset pos = of_nat ?so" by (simp add: pp s(2))
  then have co: "sint (ChunkOffset pos) = int ?so"
    using so sint64_of_nat [of ?so] by simp
  have fs: "findSegment wal' (SegmentId pos) = Some seg'"
    by (simp add: findSegment_def act sid)
  show ?thesis
    by (simp add: WAL_Read_def fs rn nonceSize_def f'' bp co rd)
qed

theorem write_read_round_trip_witness:
  "wfWAL (exampleWAL 1000) \<and> SegmentSize (options (exampleWAL 1000)) \<le> 2147483648
   \<and> length exampleNonce = 12
   \<and> WAL_Write (exampleWAL 1000) [1, 2, 3] exampleNonce
       = (Inr \<lparr>SegmentId = 1, BlockNumber = 0, ChunkOffset = 0, ChunkSize = 10, ValueNum = 0\<rparr>,
          exampleWAL1)
   \<and> map_option fst (WAL_Read exampleWAL1 []
         \<lparr>SegmentId = 1, BlockNumber = 0, ChunkOffset = 0, ChunkSize = 10, ValueNum = 0\<rparr>)
       = Some (Inr ([1, 2, 3], exampleNonce))"
proof -
  have wf: "wfWAL (exampleWAL 1000)"
    by (simp add: wfWAL_def wfActive_def wfNonce_def exampleWAL_def newFile_def Size_def
        blockSize_def)
  have ss: "SegmentSize (options (exampleWAL 1000)) \<le> 2147483648"
    by (simp add: exampleWAL_def)
  have n: "length exampleNonce = 12" by (simp add: exampleNonce_def)
  have h: "WAL_Write (exampleWAL 1000) [1, 2, 3] exampleNonce
       = (Inr \<lparr>SegmentId = 1, BlockNumber = 0, ChunkOffset = 0, ChunkSize = 10, ValueNum = 0\<rparr>,
          exampleWAL1)"
    by (simp add: exampleWAL_write1n exampleWAL1_def)
  from write_read_round_trip [OF wf ss n h, of "[]"] wf ss n h show ?thesis by simp
qed

text \<open>
  A record written without a nonce, as \<^verbatim>\<open>examples/main.go\<close> writes its records: the write
  succeeds, and reading the position it returned gives \<^verbatim>\<open>io.EOF\<close>, not the data.
\<close>

theorem round_trip_without_nonce:
  "WAL_Write (exampleWAL 1000) [1, 2, 3] []
     = (Inr \<lparr>SegmentId = 1, BlockNumber = 0, ChunkOffset = 0, ChunkSize = 10, ValueNum = 0\<rparr>,
        exampleWAL0)
   \<and> WAL_Read exampleWAL0 []
        \<lparr>SegmentId = 1, BlockNumber = 0, ChunkOffset = 0, ChunkSize = 10, ValueNum = 0\<rparr>
     = Some (Inl EOF, exampleWAL0)"
  by (simp add: exampleWAL0_read) (simp add: exampleWAL_write1 exampleWAL0_def)




end
